theory Spec2Isabelle
  imports Main "HOL-Library.AList" "HOL-Library.Sublist"
begin

section \<open>Data model\<close>

text \<open>
  The persistence layer of the extension lives in two files: \<^verbatim>\<open>src/content/storage.js\<close>
  (session records in \<^verbatim>\<open>chrome.storage.local\<close>, the save queue, quota check and the
  two eviction sweeps) and \<^verbatim>\<open>src/content/screenshot-db.js\<close> (screenshots in IndexedDB).

  A marker is the object literal built by \<^verbatim>\<open>addMarker\<close>; a session is the literal built
  by \<^verbatim>\<open>beginSession\<close> plus the \<^verbatim>\<open>finalized\<close> flag set by \<^verbatim>\<open>finalizeSession\<close>. A field
  the code reads defensively (\<^verbatim>\<open>session.updatedAt || 0\<close>) is optional, \<open>None\<close> standing
  for \<^verbatim>\<open>undefined\<close>.
\<close>

record marker =
  marker_id :: string
  t_seconds :: nat
  title :: string
  marker_createdAt :: int
  screenshotId :: "string option"
  hasScreenshot :: bool

record timer =
  isActive :: bool
  startedAt :: int
  elapsedOffset :: int

record session =
  url :: string
  videoTitle :: string
  createdAt :: "int option"
  updatedAt :: "int option"
  markers :: "marker list"
  manualTimer :: "timer option"
  finalized :: bool

record settings =
  screenshotQuality :: "nat option"
  insertIntro :: "bool option"
  overlayPosition :: "(string \<times> int) list option"
  defaultExportFormat :: "string option"
  hotkeyEnabled :: "bool option"
  lastCleanup :: "int option"

text \<open>
  The sessions collection is a JavaScript object used as a dictionary. It is an
  association list in \<^verbatim>\<open>Object.keys\<close> order: \<^verbatim>\<open>sessions[k] = v\<close> is \<open>AList.update\<close>
  (in place for a present key; for a new one see \<open>setProperty\<close>),
  \<^verbatim>\<open>delete sessions[k]\<close> is \<open>AList.delete\<close>, an own entry \<^verbatim>\<open>sessions[k]\<close> is \<open>map_of\<close>
  (for the members a plain object inherits see \<open>getProperty\<close>).
\<close>

type_synonym sessions = "(string \<times> session) list"

text \<open>The record stored by \<^verbatim>\<open>storeScreenshot\<close>; \<^verbatim>\<open>id\<close> is the key path of the object store.\<close>

record screenshot =
  shot_id :: string
  markerId :: string
  sessionKey :: string
  dataUrl :: string
  shot_createdAt :: int
  shot_size :: nat

text \<open>
  \<^verbatim>\<open>chrome.storage.local\<close> maps string keys to JSON values. The values this code stores
  are the sessions collection, the last active key (a string) and the settings object.
\<close>

datatype kv_value = VSessions sessions | VString string | VSettings settings

type_synonym storage = "string \<rightharpoonup> kv_value"

definition STORAGE_PREFIX :: string where
  "STORAGE_PREFIX = ''cmb''"

definition SESSIONS_KEY :: string where
  "SESSIONS_KEY = STORAGE_PREFIX @ ''.sessions''"

definition LAST_ACTIVE_KEY :: string where
  "LAST_ACTIVE_KEY = STORAGE_PREFIX @ ''.lastActiveKey''"

definition SETTINGS_KEY :: string where
  "SETTINGS_KEY = STORAGE_PREFIX @ ''.settings''"

section \<open>The world outside the code\<close>

text \<open>
  An exception carries its message (\<^verbatim>\<open>error.message\<close>). A toast is the pair of arguments
  of \<^verbatim>\<open>CMBUtils.showToast(message, type)\<close>. The operation log records, in order, every
  physical write to \<^verbatim>\<open>chrome.storage.local\<close> and every record deleted from IndexedDB.
\<close>

datatype error = Error string

datatype toast = Toast string string

datatype op = KVSet "(string \<times> kv_value) list" | IDBDelete string

record world =
  kv :: storage
  blobs :: "screenshot list"
  db :: bool
  toasts :: "toast list"
  oplog :: "op list"
  ticks :: nat

text \<open>
  Everything the code cannot decide is a field of the environment, indexed by the number
  of external calls made so far (\<open>ticks\<close>): the reading of \<^verbatim>\<open>Date.now()\<close>, whether a
  \<^verbatim>\<open>chrome.storage.local\<close> call throws, whether an IndexedDB open or request fails.
  \<open>jsonSize\<close> is \<^verbatim>\<open>new Blob([JSON.stringify(storage)]).size\<close>, \<open>roundPercent\<close> is
  \<^verbatim>\<open>Math.round((dataSize/quotaLimit)*100)\<close> (floating point, left to the platform),
  \<open>screenshotDB_defined\<close> is \<^verbatim>\<open>typeof CMBScreenshotDB !== 'undefined'\<close>,
  \<open>parseURL\<close> is the browser's URL parser on strings that have a scheme (\<open>None\<close> when
  it throws), \<open>toISOString\<close> is \<^verbatim>\<open>new Date(ms).toISOString()\<close>, \<open>getVideoTitle\<close> is what
  \<^verbatim>\<open>CMBUtils.getVideoTitle()\<close> reads from the page.
  Console output is not modelled. \<^verbatim>\<open>showToast\<close> only appends to the list of toasts.

  An asynchronous function is a function from the world before the call to its result
  and the world after it: a rejected promise is \<open>Inl\<close>, a \<^verbatim>\<open>try\<close>/\<^verbatim>\<open>catch\<close> is a case
  distinction on the result. Each function runs to completion without interleaving,
  except the drain loop of the save queue, whose suspension points are modelled.
\<close>

text \<open>The parts of a parsed \<^verbatim>\<open>URL\<close> object that the code reads.\<close>

record URL =
  hostname :: string
  pathname :: string
  searchParams :: "(string \<times> string) list"

record env =
  clock :: "nat \<Rightarrow> int"
  kv_fault :: "nat \<Rightarrow> error option"
  idb_fault :: "nat \<Rightarrow> error option"
  jsonSize :: "storage \<Rightarrow> nat"
  roundPercent :: "nat \<Rightarrow> nat"
  screenshotDB_defined :: bool
  parseURL :: "string \<Rightarrow> URL option"
  toISOString :: "int \<Rightarrow> string"
  getVideoTitle :: string

definition tick :: "world \<Rightarrow> world" where
  "tick w = w\<lparr>ticks := Suc (ticks w)\<rparr>"

definition Date_now :: "env \<Rightarrow> world \<Rightarrow> int \<times> world" where
  "Date_now e w = (clock e (ticks w), tick w)"

definition showToast :: "string \<Rightarrow> string \<Rightarrow> world \<Rightarrow> world" where
  "showToast message type w = w\<lparr>toasts := toasts w @ [Toast message type]\<rparr>"

text \<open>\<^verbatim>\<open>chrome.storage.local.get(keys)\<close>; \<open>None\<close> is \<^verbatim>\<open>get(null)\<close>, the whole store.\<close>

definition storage_get :: "env \<Rightarrow> string list option \<Rightarrow> world \<Rightarrow> (error + storage) \<times> world" where
  "storage_get e keys w =
     (case kv_fault e (ticks w) of
        Some err \<Rightarrow> (Inl err, tick w)
      | None \<Rightarrow>
          (Inr (case keys of None \<Rightarrow> kv w | Some ks \<Rightarrow> kv w |` set ks), tick w))"

text \<open>\<^verbatim>\<open>chrome.storage.local.set(items)\<close>: all items are written, or the call throws.\<close>

definition storage_set :: "env \<Rightarrow> (string \<times> kv_value) list \<Rightarrow> world \<Rightarrow> (error + unit) \<times> world" where
  "storage_set e items w =
     (case kv_fault e (ticks w) of
        Some err \<Rightarrow> (Inl err, tick w)
      | None \<Rightarrow>
          (Inr (), tick (w\<lparr>kv := fold (\<lambda>(k, v) m. m(k \<mapsto> v)) items (kv w),
                            oplog := oplog w @ [KVSet items]\<rparr>)))"

text \<open>
  \<^verbatim>\<open>storage[SESSIONS_KEY] || {}\<close>. A slot holding a value of another shape is read as
  the empty collection; the code never writes one there.
\<close>

definition sessions_of :: "storage \<Rightarrow> sessions" where
  "sessions_of st = (case st SESSIONS_KEY of Some (VSessions ss) \<Rightarrow> ss | _ \<Rightarrow> [])"

text \<open>\<^verbatim>\<open>x || d\<close> on an optional number: \<^verbatim>\<open>undefined\<close> and \<open>0\<close> are falsy.\<close>

definition num_or :: "int option \<Rightarrow> int \<Rightarrow> int" where
  "num_or x d = (case x of None \<Rightarrow> d | Some v \<Rightarrow> if v = 0 then d else v)"

text \<open>Decimal rendering of a number inside a template string.\<close>

definition digit :: "nat \<Rightarrow> char" where
  "digit d = ''0123456789'' ! d"

function dec :: "nat \<Rightarrow> string" where
  "dec n = (if n < 10 then [digit n] else dec (n div 10) @ [digit (n mod 10)])"
  by pat_completeness auto
termination
  by (relation "measure id") auto

declare dec.simps [simp del]

section \<open>screenshot-db.js\<close>

text \<open>
  \<^verbatim>\<open>initDB\<close>: the cached connection is returned when there is one; otherwise the open
  request succeeds and caches the connection, or the promise rejects (IndexedDB missing,
  \<^verbatim>\<open>onerror\<close>, the 10 s timeout, a failing upgrade).
\<close>

definition initDB :: "env \<Rightarrow> world \<Rightarrow> (error + unit) \<times> world" where
  "initDB e w =
     (if db w then (Inr (), w)
      else (case idb_fault e (ticks w) of
              Some err \<Rightarrow> (Inl err, tick w)
            | None \<Rightarrow> (Inr (), tick (w\<lparr>db := True\<rparr>))))"

text \<open>
  The cursor loop shared by \<^verbatim>\<open>deleteSessionScreenshots\<close> and \<^verbatim>\<open>cleanupOldScreenshots\<close>:
  the first argument is what is left of the cursor's range; \<^verbatim>\<open>cursor.delete()\<close> removes
  the record under the cursor (by primary key), \<^verbatim>\<open>deletedCount++\<close>, \<^verbatim>\<open>cursor.continue()\<close>;
  a null cursor resolves with the count.
\<close>

fun cursor_loop :: "screenshot list \<Rightarrow> world \<Rightarrow> nat \<Rightarrow> nat \<times> world" where
  "cursor_loop [] w deletedCount = (deletedCount, w)"
| "cursor_loop (c # cs) w deletedCount =
     cursor_loop cs
       (w\<lparr>blobs := filter (\<lambda>b. shot_id b \<noteq> shot_id c) (blobs w),
          oplog := oplog w @ [IDBDelete (shot_id c)]\<rparr>)
       (Suc deletedCount)"

text \<open>
  A read-write transaction over an index range. A failing request (\<^verbatim>\<open>request.onerror\<close>)
  rejects the promise and aborts the transaction, so the store is as before.
\<close>

definition range_delete :: "env \<Rightarrow> (screenshot \<Rightarrow> bool) \<Rightarrow> world \<Rightarrow> (error + nat) \<times> world" where
  "range_delete e inRange w =
     (case idb_fault e (ticks w) of
        Some err \<Rightarrow> (Inl err, tick w)
      | None \<Rightarrow>
          (let (deletedCount, w1) = cursor_loop (filter inRange (blobs w)) (tick w) 0
           in (Inr deletedCount, w1)))"

definition deleteScreenshot :: "env \<Rightarrow> string \<Rightarrow> world \<Rightarrow> (error + bool) \<times> world" where
  "deleteScreenshot e screenshotId' w =
     (case initDB e w of
        (Inl err, w1) \<Rightarrow> (Inl err, w1)
      | (Inr _, w1) \<Rightarrow>
          (case idb_fault e (ticks w1) of
             Some err \<Rightarrow> (Inl err, tick w1)
           | None \<Rightarrow>
               (Inr True,
                tick (w1\<lparr>blobs := filter (\<lambda>b. shot_id b \<noteq> screenshotId') (blobs w1),
                         oplog := oplog w1 @
                           map (\<lambda>b. IDBDelete (shot_id b))
                               (filter (\<lambda>b. shot_id b = screenshotId') (blobs w1))\<rparr>))))"

definition deleteSessionScreenshots :: "env \<Rightarrow> string \<Rightarrow> world \<Rightarrow> (error + nat) \<times> world" where
  "deleteSessionScreenshots e sessionKey' w =
     (case initDB e w of
        (Inl err, w1) \<Rightarrow> (Inl err, w1)
      | (Inr _, w1) \<Rightarrow> range_delete e (\<lambda>b. sessionKey b = sessionKey') w1)"

text \<open>\<^verbatim>\<open>IDBKeyRange.upperBound(cutoffTime)\<close> is a closed bound: \<open>createdAt \<le> cutoffTime\<close>.\<close>

definition cleanupOldScreenshots :: "env \<Rightarrow> int \<Rightarrow> world \<Rightarrow> (error + nat) \<times> world" where
  "cleanupOldScreenshots e maxAgeMs w =
     (case initDB e w of
        (Inl err, w1) \<Rightarrow> (Inl err, w1)
      | (Inr _, w1) \<Rightarrow>
          (let (now, w2) = Date_now e w1;
               cutoffTime = now - maxAgeMs
           in range_delete e (\<lambda>b. shot_createdAt b \<le> cutoffTime) w2))"

section \<open>storage.js: capacity eviction and the quota check\<close>

text \<open>
  The loop of \<^verbatim>\<open>cleanupOldSessions\<close> over the sessions to delete: the cascade into
  IndexedDB runs when the screenshot module is loaded, a rejection is caught and logged,
  and the session is deleted from the in-memory collection either way.
\<close>

fun deleteLoop :: "env \<Rightarrow> string list \<Rightarrow> sessions \<Rightarrow> world \<Rightarrow> sessions \<times> world" where
  "deleteLoop e [] sessions w = (sessions, w)"
| "deleteLoop e (key # keys) sessions w =
     (let w1 = (if screenshotDB_defined e then snd (deleteSessionScreenshots e key w) else w)
      in deleteLoop e keys (AList.delete key sessions) w1)"

text \<open>
  \<^verbatim>\<open>Object.keys(sessions).map(key => ({key, session: sessions[key]}))\<close> is the list of
  entries. \<^verbatim>\<open>Array.prototype.sort\<close> is stable; the comparator
  \<^verbatim>\<open>(b.session.updatedAt || 0) - (a.session.updatedAt || 0)\<close> orders by descending
  \<^verbatim>\<open>updatedAt || 0\<close>, which is the stable \<open>sort_key\<close> on the negated key.
\<close>

definition sortedSessions :: "sessions \<Rightarrow> sessions" where
  "sortedSessions sessions =
     drop 5 (sort_key (\<lambda>(key, s). - num_or (updatedAt s) 0) sessions)"

text \<open>The sort key of capacity eviction: \<^verbatim>\<open>session.updatedAt || 0\<close>.\<close>

definition recency :: "string \<times> session \<Rightarrow> int" where
  "recency entry = num_or (updatedAt (snd entry)) 0"

definition cleanupOldSessions :: "env \<Rightarrow> world \<Rightarrow> world" where
  "cleanupOldSessions e w =
     (case storage_get e (Some [SESSIONS_KEY]) w of
        (Inl err, w1) \<Rightarrow> showToast ''Cleanup failed'' ''error'' w1
      | (Inr storage, w1) \<Rightarrow>
          (let sessions = sessions_of storage;
               sessionKeys = map fst sessions
           in if length sessionKeys \<le> 5 then w1
              else
                (let sorted = sortedSessions sessions;
                     (sessions', w2) = deleteLoop e (map fst sorted) sessions w1
                 in case storage_set e [(SESSIONS_KEY, VSessions sessions')] w2 of
                      (Inl err, w3) \<Rightarrow> showToast ''Cleanup failed'' ''error'' w3
                    | (Inr _, w3) \<Rightarrow>
                        showToast (''Cleaned up '' @ dec (length sorted) @ '' old sessions'')
                          ''success'' w3)))"

definition quotaLimit :: nat where
  "quotaLimit = 5 * 1024 * 1024"

text \<open>
  \<^verbatim>\<open>quotaLimit * warningThreshold\<close> is \<open>5242880 * 0.8\<close> in double precision, which rounds to
  exactly \<open>4194304\<close>; \<^verbatim>\<open>dataSize\<close> is an integer, so the comparison is one of integers.
\<close>

definition warningLimit :: nat where
  "warningLimit = 4194304"

definition checkStorageQuota :: "env \<Rightarrow> world \<Rightarrow> bool \<times> world" where
  "checkStorageQuota e w =
     (case storage_get e None w of
        (Inl err, w1) \<Rightarrow> (True, w1)
      | (Inr storage, w1) \<Rightarrow>
          (let dataSize = jsonSize e storage
           in if dataSize \<ge> quotaLimit then
                (let w2 = showToast ''Storage full! Auto-cleanup running...'' ''warning'' w1;
                     w3 = cleanupOldSessions e w2
                 in (False, w3))
              else if dataSize \<ge> warningLimit then
                (True, showToast (''Storage '' @ dec (roundPercent e dataSize) @ ''% full'')
                         ''warning'' w1)
              else (True, w1)))"

section \<open>storage.js: settings and age eviction\<close>

definition defaultSettings :: settings where
  "defaultSettings =
     \<lparr>screenshotQuality = Some 75, insertIntro = Some True,
      overlayPosition = Some [(''bottom'', 20), (''right'', 20)],
      defaultExportFormat = Some ''youtube'', hotkeyEnabled = Some True,
      lastCleanup = None\<rparr>"

text \<open>The empty object \<^verbatim>\<open>{}\<close> that \<^verbatim>\<open>getSettings\<close> returns when the read throws.\<close>

definition emptySettings :: settings where
  "emptySettings =
     \<lparr>screenshotQuality = None, insertIntro = None, overlayPosition = None,
      defaultExportFormat = None, hotkeyEnabled = None, lastCleanup = None\<rparr>"

definition getSettings :: "env \<Rightarrow> world \<Rightarrow> settings \<times> world" where
  "getSettings e w =
     (case storage_get e (Some [SETTINGS_KEY]) w of
        (Inl err, w1) \<Rightarrow> (emptySettings, w1)
      | (Inr storage, w1) \<Rightarrow>
          (case storage SETTINGS_KEY of
             Some (VSettings s) \<Rightarrow> (s, w1)
           | _ \<Rightarrow> (defaultSettings, w1)))"

definition saveSettings :: "env \<Rightarrow> settings \<Rightarrow> world \<Rightarrow> world" where
  "saveSettings e s w = snd (storage_set e [(SETTINGS_KEY, VSettings s)] w)"

definition thirtyDays :: int where
  "thirtyDays = 30 * 24 * 60 * 60 * 1000"

definition ninetyDays :: int where
  "ninetyDays = 90 * 24 * 60 * 60 * 1000"

definition oneDay :: int where
  "oneDay = 24 * 60 * 60 * 1000"

text \<open>\<^verbatim>\<open>(session.updatedAt || session.createdAt || 0) < oldSessionCutoff\<close>\<close>

definition isOldSession :: "int \<Rightarrow> string \<times> session \<Rightarrow> bool" where
  "isOldSession oldSessionCutoff entry =
     (num_or (updatedAt (snd entry)) (num_or (createdAt (snd entry)) 0) < oldSessionCutoff)"

text \<open>
  \<^verbatim>\<open>progressiveCleanup\<close> is two blocks in sequence. The first is the screenshot block,
  with its own \<^verbatim>\<open>try\<close>: a rejection counts zero and the sweep goes on.
\<close>

definition cleanupScreenshotsStep :: "env \<Rightarrow> world \<Rightarrow> nat \<times> world" where
  "cleanupScreenshotsStep e w =
     (if screenshotDB_defined e then
        (case cleanupOldScreenshots e thirtyDays w of
           (Inl err, w') \<Rightarrow> (0, w')
         | (Inr oldScreenshots, w') \<Rightarrow> (oldScreenshots, w'))
      else (0, w))"

text \<open>
  The second block deletes the old sessions and stamps \<^verbatim>\<open>lastCleanup\<close>. A throwing read
  or write of the sessions reaches the outer \<^verbatim>\<open>catch\<close>, which returns 0.
  \<^verbatim>\<open>getSettings\<close> and \<^verbatim>\<open>saveSettings\<close> never throw.
\<close>

definition cleanupSessionsStep :: "env \<Rightarrow> nat \<Rightarrow> world \<Rightarrow> nat \<times> world" where
  "cleanupSessionsStep e oldScreenshots w1 =
     (case storage_get e (Some [SESSIONS_KEY]) w1 of
        (Inl err, w2) \<Rightarrow> (0, w2)
      | (Inr storage, w2) \<Rightarrow>
          (let sessions = sessions_of storage;
               (now, w3) = Date_now e w2;
               oldSessionCutoff = now - ninetyDays;
               sessionsToDelete = filter (isOldSession oldSessionCutoff) sessions;
               sessions' = fold AList.delete (map fst sessionsToDelete) sessions;
               cleanedCount = oldScreenshots + length sessionsToDelete
           in case (if length sessionsToDelete > 0
                    then storage_set e [(SESSIONS_KEY, VSessions sessions')] w3
                    else (Inr (), w3)) of
                (Inl err, w4) \<Rightarrow> (0, w4)
              | (Inr _, w4) \<Rightarrow>
                  (let (settings, w5) = getSettings e w4;
                       (now', w6) = Date_now e w5;
                       w7 = saveSettings e (settings\<lparr>lastCleanup := Some now'\<rparr>) w6
                   in (cleanedCount, w7))))"

definition progressiveCleanup :: "env \<Rightarrow> world \<Rightarrow> nat \<times> world" where
  "progressiveCleanup e w =
     (let (oldScreenshots, w1) = cleanupScreenshotsStep e w
      in cleanupSessionsStep e oldScreenshots w1)"

text \<open>The tick at which the sweep reads the clock for the screenshot cutoff.\<close>

definition sweepTick :: "env \<Rightarrow> world \<Rightarrow> nat" where
  "sweepTick e w = ticks (snd (initDB e w))"

fun isIDBDelete :: "op \<Rightarrow> bool" where
  "isIDBDelete (IDBDelete i) = True"
| "isIDBDelete (KVSet items) = False"

fun isKVSet :: "op \<Rightarrow> bool" where
  "isKVSet (KVSet items) = True"
| "isKVSet (IDBDelete i) = False"

text \<open>
  \<^verbatim>\<open>checkAndRunProgressiveCleanup\<close>, the caller that runs at start-up. (The other
  caller, \<^verbatim>\<open>manualCleanup\<close>, calls \<^verbatim>\<open>progressiveCleanup\<close> directly.)
\<close>

definition checkAndRunProgressiveCleanup :: "env \<Rightarrow> world \<Rightarrow> world" where
  "checkAndRunProgressiveCleanup e w =
     (let (settings, w1) = getSettings e w;
          lastCleanup' = num_or (lastCleanup settings) 0;
          (now, w2) = Date_now e w1;
          oneDayAgo = now - oneDay
      in if lastCleanup' < oneDayAgo then snd (progressiveCleanup e w2) else w2)"

section \<open>storage.js: the save queue\<close>

text \<open>
  \<^verbatim>\<open>queuedSave\<close> is asynchronous: the caller that finds \<^verbatim>\<open>saveInProgress\<close> false runs
  the drain loop, which is suspended at each \<^verbatim>\<open>await\<close>; while it is suspended other
  callers run \<^verbatim>\<open>queuedSave\<close>, which for them only does \<^verbatim>\<open>saveQueue.set(key, data)\<close>.
  The loop is therefore a machine with one state per \<^verbatim>\<open>await\<close>. Its frame holds the
  loop's local variables: the position of the \<^verbatim>\<open>Map\<close> iterator (a live iterator is an
  index into the insertion-ordered entries, as nothing is deleted while it runs), the
  destructured \<^verbatim>\<open>[queueKey, queueData]\<close>, \<^verbatim>\<open>attempt\<close>, and the \<^verbatim>\<open>retries\<close> argument.
\<close>

record frame =
  pos :: nat
  queueKey :: string
  queueData :: kv_value
  attempt :: nat
  retries :: nat

datatype drain = Idle | AwaitQuota frame | AwaitSet frame | AwaitCleanup frame | AwaitBackoff frame

record qstate =
  saveQueue :: "(string \<times> kv_value) list"
  saveInProgress :: bool
  drain :: drain

datatype event = Call string kv_value nat | Resume

text \<open>
  \<^verbatim>\<open>error.message?.includes('quota') || error.message?.includes('QuotaBytes')\<close>
\<close>

fun str_includes :: "string \<Rightarrow> string \<Rightarrow> bool" where
  "str_includes [] sub = (sub = [])"
| "str_includes (c # cs) sub = (prefix sub (c # cs) \<or> str_includes cs sub)"

fun isQuotaError :: "error \<Rightarrow> bool" where
  "isQuotaError (Error message) = (str_includes message ''quota'' \<or> str_includes message ''QuotaBytes'')"

text \<open>
  The head of the \<^verbatim>\<open>for ... of saveQueue.entries()\<close> loop: take the next entry, set
  \<^verbatim>\<open>attempt = 0\<close>, and enter the \<^verbatim>\<open>while (attempt < retries && !saved)\<close> loop, whose
  body starts with \<^verbatim>\<open>await checkStorageQuota()\<close>. With \<open>retries = 0\<close> the body is skipped.
\<close>

fun nextEntry :: "nat \<Rightarrow> nat \<Rightarrow> (string \<times> kv_value) list \<Rightarrow> frame option" where
  "nextEntry retries' pos' [] = None"
| "nextEntry retries' pos' ((k, d) # rest) =
     (if 0 < retries' then
        Some \<lparr>pos = Suc pos', queueKey = k, queueData = d, attempt = 0, retries = retries'\<rparr>
      else nextEntry retries' (Suc pos') rest)"

text \<open>When the iterator is exhausted: \<^verbatim>\<open>saveQueue.clear()\<close>, then \<^verbatim>\<open>saveInProgress = false\<close>.\<close>

definition forNext :: "nat \<Rightarrow> nat \<Rightarrow> qstate \<Rightarrow> qstate" where
  "forNext retries' pos' q =
     (case nextEntry retries' pos' (drop pos' (saveQueue q)) of
        None \<Rightarrow> q\<lparr>saveQueue := [], saveInProgress := False, drain := Idle\<rparr>
      | Some fr \<Rightarrow> q\<lparr>drain := AwaitQuota fr\<rparr>)"

text \<open>
  A call of \<^verbatim>\<open>queuedSave(key, data, retries)\<close>, up to its first \<^verbatim>\<open>await\<close>: the value is
  put in the queue; if no drain is in progress the caller becomes the drain loop and takes
  the first entry.
\<close>

definition queuedSave ::
  "env \<Rightarrow> string \<Rightarrow> kv_value \<Rightarrow> nat \<Rightarrow> qstate \<times> world \<Rightarrow> qstate \<times> world" where
  "queuedSave e key data retries' s =
     (case s of (q, w) \<Rightarrow>
        (let q1 = q\<lparr>saveQueue := AList.update key data (saveQueue q)\<rparr>
         in if saveInProgress q1 then (q1, w)
            else (forNext retries' 0 (q1\<lparr>saveInProgress := True\<rparr>), w)))"

text \<open>
  The drain loop resumed at the \<^verbatim>\<open>await\<close> where it is suspended, and run to its next one.
  \<^item> After \<^verbatim>\<open>await checkStorageQuota()\<close>: \<^verbatim>\<open>break\<close> when the answer is false, else the
    write of the entry taken from the iterator is issued.
  \<^item> After \<^verbatim>\<open>await chrome.storage.local.set(...)\<close>: on success \<^verbatim>\<open>saved = true\<close> ends the
    \<^verbatim>\<open>while\<close> loop; on an exception \<^verbatim>\<open>attempt++\<close>, then a quota error shows a toast, runs
    \<^verbatim>\<open>cleanupOldSessions\<close> and breaks, the last attempt shows the failure toast, and any
    other attempt waits \<^verbatim>\<open>1000 * attempt\<close> ms.
  \<^item> After \<^verbatim>\<open>await cleanupOldSessions()\<close>: \<^verbatim>\<open>break\<close>.
  \<^item> After the backoff timer: the next round of the \<^verbatim>\<open>while\<close> loop.
\<close>

definition resume :: "env \<Rightarrow> qstate \<times> world \<Rightarrow> qstate \<times> world" where
  "resume e s =
     (case s of (q, w) \<Rightarrow>
        (case drain q of
           Idle \<Rightarrow> (q, w)
         | AwaitQuota fr \<Rightarrow>
             (let (canSave, w1) = checkStorageQuota e w
              in if \<not> canSave then (forNext (retries fr) (pos fr) q, w1)
                 else (q\<lparr>drain := AwaitSet fr\<rparr>, w1))
         | AwaitSet fr \<Rightarrow>
             (case storage_set e [(queueKey fr, queueData fr)] w of
                (Inr _, w1) \<Rightarrow> (forNext (retries fr) (pos fr) q, w1)
              | (Inl err, w1) \<Rightarrow>
                  (let fr' = fr\<lparr>attempt := Suc (attempt fr)\<rparr>
                   in if isQuotaError err then
                        (q\<lparr>drain := AwaitCleanup fr'\<rparr>,
                         showToast ''Storage full! Try exporting data'' ''error'' w1)
                      else if attempt fr' \<ge> retries fr' then
                        (forNext (retries fr') (pos fr') q,
                         showToast ''Failed to save data after retries'' ''error'' w1)
                      else (q\<lparr>drain := AwaitBackoff fr'\<rparr>, w1)))
         | AwaitCleanup fr \<Rightarrow> (forNext (retries fr) (pos fr) q, cleanupOldSessions e w)
         | AwaitBackoff fr \<Rightarrow> (q\<lparr>drain := AwaitQuota fr\<rparr>, w)))"

text \<open>
  A run of the event loop: calls of \<^verbatim>\<open>queuedSave\<close> interleaved with resumptions of the
  suspended drain loop.
\<close>

fun step :: "env \<Rightarrow> qstate \<times> world \<Rightarrow> event \<Rightarrow> qstate \<times> world" where
  "step e s (Call key data retries') = queuedSave e key data retries' s"
| "step e s Resume = resume e s"

definition run :: "env \<Rightarrow> qstate \<times> world \<Rightarrow> event list \<Rightarrow> qstate \<times> world" where
  "run e s evs = foldl (step e) s evs"

section \<open>storage.js: session keys\<close>

text \<open>
  \<^verbatim>\<open>new URL(url)\<close> is called without a base. A string without a colon has no scheme,
  and the constructor throws on it; a string with one is left to the browser's parser.
\<close>

definition new_URL :: "env \<Rightarrow> string \<Rightarrow> URL option" where
  "new_URL e s = (if CHR '':'' \<in> set s then parseURL e s else None)"

definition toLowerCase :: "string \<Rightarrow> string" where
  "toLowerCase s =
     map (\<lambda>c. let n = (of_char c :: nat) in if 65 \<le> n \<and> n \<le> 90 then char_of (n + 32) else c) s"

definition isDigit :: "char \<Rightarrow> bool" where
  "isDigit c = (let n = (of_char c :: nat) in 48 \<le> n \<and> n \<le> 57)"

text \<open>\<^verbatim>\<open>a || b\<close> on an optional string: \<^verbatim>\<open>null\<close> and the empty string are falsy.\<close>

definition str_or :: "string option \<Rightarrow> string \<Rightarrow> string" where
  "str_or x d = (case x of None \<Rightarrow> d | Some v \<Rightarrow> if v = [] then d else v)"

text \<open>\<^verbatim>\<open>pathname.split('/').pop()\<close>: what follows the last slash.\<close>

definition lastSegment :: "string \<Rightarrow> string" where
  "lastSegment s = rev (takeWhile (\<lambda>c. c \<noteq> CHR ''/'') (rev s))"

text \<open>\<^verbatim>\<open>pathname.replace(/\//g, '-')\<close>\<close>

definition slashesToDashes :: "string \<Rightarrow> string" where
  "slashesToDashes s = map (\<lambda>c. if c = CHR ''/'' then CHR ''-'' else c) s"

text \<open>
  \<^verbatim>\<open>s.match(/LIT(\d+)/)\<close> for a literal \<open>LIT\<close>: the leftmost position where \<open>LIT\<close> is
  followed by a digit; the group is the longest run of digits there.
\<close>

fun matchDigitsAfter :: "string \<Rightarrow> string \<Rightarrow> string option" where
  "matchDigitsAfter lit [] = None"
| "matchDigitsAfter lit (c # cs) =
     (let digits = takeWhile isDigit (drop (length lit) (c # cs))
      in if prefix lit (c # cs) \<and> digits \<noteq> [] then Some digits
         else matchDigitsAfter lit cs)"

definition dec_int :: "int \<Rightarrow> string" where
  "dec_int i = (if i < 0 then ''-'' @ dec (nat (- i)) else dec (nat i))"

definition extractVideoId :: "env \<Rightarrow> string \<Rightarrow> world \<Rightarrow> string \<times> world" where
  "extractVideoId e url' w =
     (case new_URL e url' of
        None \<Rightarrow> (let (now, w1) = Date_now e w in (''unknown-'' @ dec_int now, w1))
      | Some urlObj \<Rightarrow>
          (let hostname' = toLowerCase (hostname urlObj);
               vParam = map_of (searchParams urlObj) ''v''
           in if str_includes hostname' ''youtube.com'' \<or> str_includes hostname' ''youtu.be'' then
                (let videoId = str_or vParam (lastSegment (pathname urlObj))
                 in (if videoId = [] then ''youtube-unknown'' else videoId, w))
              else if str_includes hostname' ''twitch.tv'' then
                (case matchDigitsAfter ''/videos/'' (pathname urlObj) of
                   Some m \<Rightarrow> (''twitch-'' @ m, w)
                 | None \<Rightarrow>
                     (if str_or vParam [] \<noteq> [] then (''twitch-'' @ str_or vParam [], w)
                      else (''twitch-'' @ slashesToDashes (pathname urlObj), w)))
              else if str_includes hostname' ''vimeo.com'' then
                (case matchDigitsAfter ''/'' (pathname urlObj) of
                   Some m \<Rightarrow> (''vimeo-'' @ m, w)
                 | None \<Rightarrow> (''vimeo-'' @ slashesToDashes (pathname urlObj), w))
              else (hostname' @ slashesToDashes (pathname urlObj), w)))"

text \<open>
  \<^verbatim>\<open>new Date().toISOString().split('T')[0]\<close>: the part of the ISO string before the
  first \<open>T\<close>, that is the UTC calendar date.
\<close>

definition isoDate :: "env \<Rightarrow> int \<Rightarrow> string" where
  "isoDate e ms = takeWhile (\<lambda>c. c \<noteq> CHR ''T'') (toISOString e ms)"

definition getSessionKey :: "env \<Rightarrow> string \<Rightarrow> world \<Rightarrow> string \<times> world" where
  "getSessionKey e url' w =
     (case new_URL e url' of
        None \<Rightarrow> (let (now, w1) = Date_now e w in (''unknown|'' @ dec_int now, w1))
      | Some urlObj \<Rightarrow>
          (let (videoId, w1) = extractVideoId e url' w;
               (now, w2) = Date_now e w1;
               date = isoDate e now
           in (hostname urlObj @ ''|'' @ videoId @ ''|'' @ date, w2)))"

section \<open>storage.js: sessions\<close>

text \<open>\<^verbatim>\<open>key || getSessionKey(url)\<close>\<close>

definition resolveKey :: "env \<Rightarrow> string \<Rightarrow> string option \<Rightarrow> world \<Rightarrow> string \<times> world" where
  "resolveKey e url' key w =
     (if str_or key [] \<noteq> [] then (str_or key [], w) else getSessionKey e url' w)"

text \<open>
  The sessions collection is a plain object, so \<^verbatim>\<open>sessions[key]\<close> finds an own entry or,
  failing that, a member inherited from \<^verbatim>\<open>Object.prototype\<close>. These are the names of
  the inherited members; each is a function, or for \<^verbatim>\<open>__proto__\<close> the prototype object
  itself, hence truthy.
\<close>

definition objectPrototypeMembers :: "string list" where
  "objectPrototypeMembers =
     [''constructor'', ''__defineGetter__'', ''__defineSetter__'', ''hasOwnProperty'',
      ''__lookupGetter__'', ''__lookupSetter__'', ''isPrototypeOf'', ''propertyIsEnumerable'',
      ''toString'', ''valueOf'', ''__proto__'', ''toLocaleString'']"

datatype property = Own session | Inherited | Missing

definition getProperty :: "sessions \<Rightarrow> string \<Rightarrow> property" where
  "getProperty sessions key =
     (case map_of sessions key of
        Some s \<Rightarrow> Own s
      | None \<Rightarrow> if key \<in> set objectPrototypeMembers then Inherited else Missing)"

text \<open>
  \<^verbatim>\<open>sessions[key] = v\<close>. A present key keeps its place. A new key is appended, unless
  it is an array index (the canonical decimal numeral of an integer below 4294967295):
  \<^verbatim>\<open>Object.keys\<close> lists those first, in ascending numeric order.
\<close>

definition arrayIndex :: "string \<Rightarrow> nat option" where
  "arrayIndex s =
     (if s \<noteq> [] \<and> list_all isDigit s \<and> (s = ''0'' \<or> hd s \<noteq> CHR ''0'') then
        (let n = foldl (\<lambda>a c. 10 * a + (of_char c - 48)) (0::nat) s
         in if n < 4294967295 then Some n else None)
      else None)"

fun insertIndexed :: "nat \<Rightarrow> string \<Rightarrow> session \<Rightarrow> sessions \<Rightarrow> sessions" where
  "insertIndexed n key v [] = [(key, v)]"
| "insertIndexed n key v (p # rest) =
     (case arrayIndex (fst p) of
        Some m \<Rightarrow> if m < n then p # insertIndexed n key v rest else (key, v) # p # rest
      | None \<Rightarrow> (key, v) # p # rest)"

definition setProperty :: "string \<Rightarrow> session \<Rightarrow> sessions \<Rightarrow> sessions" where
  "setProperty key v sessions =
     (if map_of sessions key \<noteq> None then AList.update key v sessions
      else (case arrayIndex key of
              Some n \<Rightarrow> insertIndexed n key v sessions
            | None \<Rightarrow> sessions @ [(key, v)]))"

text \<open>
  What \<^verbatim>\<open>beginSession\<close> returns: a session object; or, when the key names an inherited
  member, that member (\<^verbatim>\<open>return sessions[sessionKey]\<close>), which is no session; or, on
  that same path when the write throws, the local \<^verbatim>\<open>session\<close> whose \<^verbatim>\<open>markers\<close> and
  \<^verbatim>\<open>createdAt\<close> have both been overwritten with \<^verbatim>\<open>undefined\<close> (the \<open>markers\<close> field of the
  record carried by \<open>MarkersUndefined\<close> stands for nothing).
\<close>

datatype begun = Session session | PrototypeMember string | MarkersUndefined session

text \<open>
  \<^verbatim>\<open>beginSession\<close>. The test \<^verbatim>\<open>!sessions[sessionKey]\<close> is false for an own record and for
  an inherited member alike. On an inherited member the assignments of \<^verbatim>\<open>updatedAt\<close> and
  \<^verbatim>\<open>url\<close> land on the shared built-in object, which is outside the world; the collection
  is written back as it was read.
\<close>

definition beginSession ::
  "env \<Rightarrow> string \<Rightarrow> string option \<Rightarrow> string option \<Rightarrow> world \<Rightarrow> begun \<times> world" where
  "beginSession e url' title' key w =
     (let (sessionKey', w1) = resolveKey e url' key w;
          (c, w2) = Date_now e w1;
          (u, w3) = Date_now e w2;
          session = \<lparr>url = url', videoTitle = str_or title' (getVideoTitle e),
                     createdAt = Some c, updatedAt = Some u, markers = [],
                     manualTimer = None, finalized = False\<rparr>
      in case storage_get e (Some [SESSIONS_KEY, LAST_ACTIVE_KEY]) w3 of
           (Inl err, w4) \<Rightarrow> (Session session, w4)
         | (Inr storage, w4) \<Rightarrow>
             (let sessions = sessions_of storage
              in case getProperty sessions sessionKey' of
                   Missing \<Rightarrow>
                     (let sessions' = setProperty sessionKey' session sessions
                      in case storage_set e [(SESSIONS_KEY, VSessions sessions'),
                                             (LAST_ACTIVE_KEY, VString sessionKey')] w4 of
                           (Inl err, w5) \<Rightarrow> (Session session, w5)
                         | (Inr _, w5) \<Rightarrow> (Session session, w5))
                 | Own existing \<Rightarrow>
                     (let (n, w5) = Date_now e w4;
                          existing' = existing\<lparr>updatedAt := Some n, url := url'\<rparr>;
                          sessions' = AList.update sessionKey' existing' sessions;
                          session' = session\<lparr>markers := markers existing,
                                             createdAt := createdAt existing\<rparr>
                      in case storage_set e [(SESSIONS_KEY, VSessions sessions'),
                                             (LAST_ACTIVE_KEY, VString sessionKey')] w5 of
                           (Inl err, w6) \<Rightarrow> (Session session', w6)
                         | (Inr _, w6) \<Rightarrow> (Session existing', w6))
                 | Inherited \<Rightarrow>
                     (let (n, w5) = Date_now e w4
                      in case storage_set e [(SESSIONS_KEY, VSessions sessions),
                                             (LAST_ACTIVE_KEY, VString sessionKey')] w5 of
                           (Inl err, w6) \<Rightarrow>
                             (MarkersUndefined (session\<lparr>createdAt := None\<rparr>), w6)
                         | (Inr _, w6) \<Rightarrow> (PrototypeMember sessionKey', w6))))"

definition deleteSession :: "env \<Rightarrow> string \<Rightarrow> world \<Rightarrow> world" where
  "deleteSession e key w =
     (case storage_get e (Some [SESSIONS_KEY]) w of
        (Inl err, w1) \<Rightarrow> showToast ''Failed to delete session'' ''error'' w1
      | (Inr storage, w1) \<Rightarrow>
          (let sessions = sessions_of storage;
               w2 = (if screenshotDB_defined e
                     then snd (deleteSessionScreenshots e key w1) else w1);
               sessions' = AList.delete key sessions
           in case storage_set e [(SESSIONS_KEY, VSessions sessions')] w2 of
                (Inl err, w3) \<Rightarrow> showToast ''Failed to delete session'' ''error'' w3
              | (Inr _, w3) \<Rightarrow> showToast ''Session deleted'' ''success'' w3))"

section \<open>Example states\<close>

text \<open>
  \<^verbatim>\<open>Date.prototype.toISOString\<close> for the years 0000 to 9999, for use in the examples:
  the civil date of a day number by the usual era arithmetic over the proleptic
  Gregorian calendar, then \<^verbatim>\<open>YYYY-MM-DDTHH:mm:ss.sssZ\<close>.
\<close>

definition pad :: "nat \<Rightarrow> nat \<Rightarrow> string" where
  "pad width n = take (width - length (dec n)) ''0000'' @ dec n"

definition civilFromDays :: "int \<Rightarrow> int \<times> int \<times> int" where
  "civilFromDays days =
     (let z = days + 719468;
          era = z div 146097;
          doe = z mod 146097;
          yoe = (doe - doe div 1460 + doe div 36524 - doe div 146096) div 365;
          doy = doe - (365 * yoe + yoe div 4 - yoe div 100);
          mp = (5 * doy + 2) div 153;
          d = doy - (153 * mp + 2) div 5 + 1;
          m = (if mp < 10 then mp + 3 else mp - 9);
          y = yoe + era * 400 + (if m \<le> 2 then 1 else 0)
      in (y, m, d))"

definition utcISOString :: "int \<Rightarrow> string" where
  "utcISOString ms =
     (let (y, m, d) = civilFromDays (ms div 86400000);
          t = nat (ms mod 86400000)
      in pad 4 (nat y) @ ''-'' @ pad 2 (nat m) @ ''-'' @ pad 2 (nat d) @ ''T''
         @ pad 2 (t div 3600000) @ '':'' @ pad 2 (t div 60000 mod 60) @ '':''
         @ pad 2 (t div 1000 mod 60) @ ''.'' @ pad 3 (t mod 1000) @ ''Z'')"

text \<open>
  A platform on which nothing fails, with a clock that advances one millisecond per
  external call from 2023-11-14T22:13:20Z, and an empty, freshly installed world.
\<close>

definition demoEnv :: env where
  "demoEnv =
     \<lparr>clock = (\<lambda>n. 1700000000000 + int n),
      kv_fault = (\<lambda>n. None),
      idb_fault = (\<lambda>n. None),
      jsonSize = (\<lambda>st. 2048),
      roundPercent = (\<lambda>d. (100 * d + quotaLimit div 2) div quotaLimit),
      screenshotDB_defined = True,
      parseURL = map_of
        [(''https://www.youtube.com/watch?v=dQw4w9WgXcQ'',
          \<lparr>hostname = ''www.youtube.com'', pathname = ''/watch'',
           searchParams = [(''v'', ''dQw4w9WgXcQ'')]\<rparr>)],
      toISOString = utcISOString,
      getVideoTitle = ''Demo video''\<rparr>"

definition emptyWorld :: world where
  "emptyWorld = \<lparr>kv = Map.empty, blobs = [], db = False, toasts = [], oplog = [], ticks = 0\<rparr>"

text \<open>One stored screenshot, as \<^verbatim>\<open>storeScreenshot('m1', 'www.youtube.com|a|2023-08-01', ...)\<close> leaves it.\<close>

definition shot1 :: screenshot where
  "shot1 =
     \<lparr>shot_id = ''screenshot_m1'', markerId = ''m1'',
      sessionKey = ''www.youtube.com|a|2023-08-01'',
      dataUrl = ''data:image/jpeg;base64,AAAA'', shot_createdAt = 1690900000000,
      shot_size = 27\<rparr>"

text \<open>A second, recent screenshot, of the session updated on 2023-11-14.\<close>

definition shot2 :: screenshot where
  "shot2 =
     \<lparr>shot_id = ''screenshot_m2'', markerId = ''m2'',
      sessionKey = ''www.youtube.com|f|2023-11-14'',
      dataUrl = ''data:image/jpeg;base64,BBBB'', shot_createdAt = 1699970000000,
      shot_size = 27\<rparr>"

definition blobWorld :: world where
  "blobWorld = emptyWorld\<lparr>blobs := [shot1], db := True\<rparr>"

text \<open>The world after one completed age-eviction sweep of the empty world.\<close>

definition sweptOnce :: world where
  "sweptOnce = snd (progressiveCleanup demoEnv emptyWorld)"

text \<open>
  Six sessions, the one of \<open>shot1\<close> last updated on 2023-08-01 and five updated on
  2023-11-10 to 2023-11-14, with the stale one in the middle of the collection.
\<close>

definition mkSession :: "string \<Rightarrow> int \<Rightarrow> session" where
  "mkSession u ms =
     \<lparr>url = u, videoTitle = ''Video'', createdAt = Some ms, updatedAt = Some ms,
      markers = [], manualTimer = None, finalized = False\<rparr>"

definition sixSessions :: sessions where
  "sixSessions =
     [(''www.youtube.com|b|2023-11-10'', mkSession ''https://www.youtube.com/watch?v=b'' 1699610000000),
      (''www.youtube.com|c|2023-11-11'', mkSession ''https://www.youtube.com/watch?v=c'' 1699700000000),
      (''www.youtube.com|a|2023-08-01'', mkSession ''https://www.youtube.com/watch?v=a'' 1690900000000),
      (''www.youtube.com|d|2023-11-12'', mkSession ''https://www.youtube.com/watch?v=d'' 1699790000000),
      (''www.youtube.com|e|2023-11-13'', mkSession ''https://www.youtube.com/watch?v=e'' 1699880000000),
      (''www.youtube.com|f|2023-11-14'', mkSession ''https://www.youtube.com/watch?v=f'' 1699970000000)]"

definition sixWorld :: world where
  "sixWorld = blobWorld\<lparr>kv := [SESSIONS_KEY \<mapsto> VSessions sixSessions],
                         blobs := [shot1, shot2]\<rparr>"

text \<open>
  The save queue at rest, and two successive values of the sessions collection for one
  session: the second has one marker more.
\<close>

definition idleQueue :: qstate where
  "idleQueue = \<lparr>saveQueue = [], saveInProgress = False, drain = Idle\<rparr>"

definition marker1 :: marker where
  "marker1 =
     \<lparr>marker_id = ''lp1abc'', t_seconds = 42, title = ''Intro'',
      marker_createdAt = 1699999999000, screenshotId = None, hasScreenshot = False\<rparr>"

definition save1 :: kv_value where
  "save1 = VSessions [(''www.youtube.com|f|2023-11-14'',
                       mkSession ''https://www.youtube.com/watch?v=f'' 1699999998000)]"

definition save2 :: kv_value where
  "save2 = VSessions [(''www.youtube.com|f|2023-11-14'',
                       (mkSession ''https://www.youtube.com/watch?v=f'' 1699999999000)
                         \<lparr>markers := [marker1]\<rparr>)]"


section \<open>Basic facts about the primitives\<close>

lemma sessions_of_restrict:
  "SESSIONS_KEY \<in> A \<Longrightarrow> sessions_of (st |` A) = sessions_of st"
  by (simp add: sessions_of_def)

lemma fold_delete_filter:
  "fold AList.delete ks ss = filter (\<lambda>p. fst p \<notin> set ks) ss"
  by (induction ks arbitrary: ss) (auto simp add: AList.delete_eq intro: filter_cong)

lemma storage_set_oplog:
  "\<exists>sets. oplog (snd (storage_set e items w)) = oplog w @ sets \<and> list_all isKVSet sets"
  by (cases "kv_fault e (ticks w)") (simp_all add: storage_set_def tick_def)

lemma storage_set_blobs: "blobs (snd (storage_set e items w)) = blobs w"
  by (cases "kv_fault e (ticks w)") (simp_all add: storage_set_def tick_def)

lemma storage_get_snd: "snd (storage_get e keys w) = tick w"
  by (cases "kv_fault e (ticks w)") (simp_all add: storage_get_def)

lemma getSettings_snd: "snd (getSettings e w) = tick w"
  by (auto simp add: getSettings_def storage_get_def split: option.splits kv_value.splits)

lemma sessions_of_upd_sessions: "sessions_of (m(SESSIONS_KEY \<mapsto> VSessions ss)) = ss"
  by (simp add: sessions_of_def)

lemma sessions_of_upd_settings: "sessions_of (m(SETTINGS_KEY \<mapsto> v)) = sessions_of m"
  by (simp add: sessions_of_def SETTINGS_KEY_def SESSIONS_KEY_def)


section \<open>The quota check\<close>

text \<open>
  C9. Quota enforcement is fail-open: in every state in which reading the contents of
  \<^verbatim>\<open>chrome.storage.local\<close> throws, \<^verbatim>\<open>checkStorageQuota\<close> returns true, and nothing but
  the failed read has happened: no size was measured, no toast shown, no eviction run.
\<close>

theorem checkStorageQuota_fail_open:
  "kv_fault e (ticks w) = Some err \<Longrightarrow> checkStorageQuota e w = (True, tick w)"
  by (simp add: checkStorageQuota_def storage_get_def)

theorem checkStorageQuota_fail_open_witness:
  "kv_fault (demoEnv\<lparr>kv_fault := (\<lambda>n. Some (Error ''disk''))\<rparr>) (ticks emptyWorld)
     = Some (Error ''disk'')
   \<and> checkStorageQuota (demoEnv\<lparr>kv_fault := (\<lambda>n. Some (Error ''disk''))\<rparr>) emptyWorld
     = (True, emptyWorld\<lparr>ticks := 1\<rparr>)"
  using checkStorageQuota_fail_open
          [of "demoEnv\<lparr>kv_fault := (\<lambda>n. Some (Error ''disk''))\<rparr>" emptyWorld "Error ''disk''"]
  by (simp add: demoEnv_def emptyWorld_def tick_def)

text \<open>
  C5. \<^verbatim>\<open>checkStorageQuota\<close> measures the serialized size of the whole store. At or above
  the limit of 5 MiB it shows the warning, runs \<^verbatim>\<open>cleanupOldSessions\<close> to completion and
  only then returns false. At or above 80% of the limit and below the limit it returns
  true and shows a warning toast. Below 80% it returns true silently.
\<close>

theorem checkStorageQuota_limits:
  assumes "kv_fault e (ticks w) = None"
  shows "(quotaLimit \<le> jsonSize e (kv w) \<longrightarrow>
            checkStorageQuota e w =
              (False, cleanupOldSessions e
                 (showToast ''Storage full! Auto-cleanup running...'' ''warning'' (tick w))))
       \<and> (warningLimit \<le> jsonSize e (kv w) \<and> jsonSize e (kv w) < quotaLimit \<longrightarrow>
            checkStorageQuota e w =
              (True, showToast (''Storage '' @ dec (roundPercent e (jsonSize e (kv w))) @ ''% full'')
                       ''warning'' (tick w)))
       \<and> (jsonSize e (kv w) < warningLimit \<longrightarrow> checkStorageQuota e w = (True, tick w))
       \<and> quotaLimit = 5 * 2 ^ 20 \<and> 10 * warningLimit = 8 * quotaLimit"
  using assms
  by (auto simp add: checkStorageQuota_def storage_get_def Let_def quotaLimit_def
        warningLimit_def tick_def)

theorem checkStorageQuota_limits_witness:
  "kv_fault (demoEnv\<lparr>jsonSize := (\<lambda>st. 5242880)\<rparr>) (ticks emptyWorld) = None
   \<and> checkStorageQuota (demoEnv\<lparr>jsonSize := (\<lambda>st. 5242880)\<rparr>) emptyWorld
       = (False, emptyWorld\<lparr>toasts := [Toast ''Storage full! Auto-cleanup running...'' ''warning''],
                           ticks := 2\<rparr>)
   \<and> checkStorageQuota (demoEnv\<lparr>jsonSize := (\<lambda>st. 4325376)\<rparr>) emptyWorld
       = (True, emptyWorld\<lparr>toasts := [Toast ''Storage 83% full'' ''warning''], ticks := 1\<rparr>)"
  using checkStorageQuota_limits [of "demoEnv\<lparr>jsonSize := (\<lambda>st. 5242880)\<rparr>" emptyWorld]
        checkStorageQuota_limits [of "demoEnv\<lparr>jsonSize := (\<lambda>st. 4325376)\<rparr>" emptyWorld]
  by (simp add: demoEnv_def emptyWorld_def tick_def quotaLimit_def warningLimit_def showToast_def
        cleanupOldSessions_def storage_get_def sessions_of_def dec.simps digit_def)


section \<open>The screenshot store\<close>

lemma cursor_loop_fst: "fst (cursor_loop cs w n) = n + length cs"
  by (induction cs arbitrary: w n) auto

lemma cursor_loop_blobs:
  "blobs (snd (cursor_loop cs w n)) = filter (\<lambda>b. shot_id b \<notin> shot_id ` set cs) (blobs w)"
  by (induction cs arbitrary: w n) (auto intro: filter_cong)

lemma cursor_loop_oplog:
  "oplog (snd (cursor_loop cs w n)) = oplog w @ map (\<lambda>c. IDBDelete (shot_id c)) cs"
  by (induction cs arbitrary: w n) auto

lemma cursor_loop_rest:
  "kv (snd (cursor_loop cs w n)) = kv w \<and> db (snd (cursor_loop cs w n)) = db w
   \<and> toasts (snd (cursor_loop cs w n)) = toasts w \<and> ticks (snd (cursor_loop cs w n)) = ticks w"
  by (induction cs arbitrary: w n) auto

lemma range_delete_rest:
  "kv (snd (range_delete e P w)) = kv w \<and> db (snd (range_delete e P w)) = db w
   \<and> toasts (snd (range_delete e P w)) = toasts w \<and> ticks (snd (range_delete e P w)) = Suc (ticks w)"
  by (simp add: range_delete_def tick_def cursor_loop_rest split_beta split: option.splits)

lemma range_delete_subset:
  "set (blobs (snd (range_delete e P w))) \<subseteq> set (blobs w)"
proof (cases "idb_fault e (ticks w)")
  case None
  obtain n w1 where c: "cursor_loop (filter P (blobs w)) (tick w) 0 = (n, w1)"
    by (cases "cursor_loop (filter P (blobs w)) (tick w) 0")
  have "blobs w1 = filter (\<lambda>b. shot_id b \<notin> shot_id ` set (filter P (blobs w))) (blobs (tick w))"
    using cursor_loop_blobs [of "filter P (blobs w)" "tick w" 0] c by simp
  then show ?thesis using None c by (auto simp add: range_delete_def tick_def)
next
  case (Some err)
  then show ?thesis by (simp add: range_delete_def tick_def)
qed

lemma range_delete_ok:
  assumes "idb_fault e (ticks w) = None"
  shows "fst (range_delete e P w) = Inr (length (filter P (blobs w)))"
    and "blobs (snd (range_delete e P w)) =
           filter (\<lambda>b. shot_id b \<notin> shot_id ` set (filter P (blobs w))) (blobs w)"
    and "oplog (snd (range_delete e P w)) =
           oplog w @ map (\<lambda>c. IDBDelete (shot_id c)) (filter P (blobs w))"
proof -
  obtain n w1 where c: "cursor_loop (filter P (blobs w)) (tick w) 0 = (n, w1)"
    by (cases "cursor_loop (filter P (blobs w)) (tick w) 0")
  have n: "n = length (filter P (blobs w))"
    using cursor_loop_fst [of "filter P (blobs w)" "tick w" 0] c by simp
  have b: "blobs w1 = filter (\<lambda>b. shot_id b \<notin> shot_id ` set (filter P (blobs w))) (blobs (tick w))"
    using cursor_loop_blobs [of "filter P (blobs w)" "tick w" 0] c by simp
  have l: "oplog w1 = oplog (tick w) @ map (\<lambda>c. IDBDelete (shot_id c)) (filter P (blobs w))"
    using cursor_loop_oplog [of "filter P (blobs w)" "tick w" 0] c by simp
  show "fst (range_delete e P w) = Inr (length (filter P (blobs w)))"
    using assms c n by (simp add: range_delete_def)
  show "blobs (snd (range_delete e P w)) =
           filter (\<lambda>b. shot_id b \<notin> shot_id ` set (filter P (blobs w))) (blobs w)"
    using assms c b by (simp add: range_delete_def tick_def)
  show "oplog (snd (range_delete e P w)) =
           oplog w @ map (\<lambda>c. IDBDelete (shot_id c)) (filter P (blobs w))"
    using assms c l by (simp add: range_delete_def tick_def)
qed

lemma range_delete_none_left:
  assumes "idb_fault e (ticks w) = None" and "b \<in> set (blobs (snd (range_delete e P w)))"
  shows "\<not> P b"
  using assms by (auto simp add: range_delete_ok(2))

lemma initDB_rest:
  "kv (snd (initDB e w)) = kv w \<and> blobs (snd (initDB e w)) = blobs w
   \<and> toasts (snd (initDB e w)) = toasts w \<and> oplog (snd (initDB e w)) = oplog w"
  by (auto simp add: initDB_def tick_def split: option.splits)

lemma initDB_ok:
  "\<forall>n. idb_fault e n = None \<Longrightarrow> fst (initDB e w) = Inr ()"
  by (auto simp add: initDB_def)

lemma deleteSessionScreenshots_rest:
  "kv (snd (deleteSessionScreenshots e k w)) = kv w
   \<and> toasts (snd (deleteSessionScreenshots e k w)) = toasts w"
  using initDB_rest [of e w]
  by (auto simp add: deleteSessionScreenshots_def range_delete_rest split: prod.splits sum.splits)

lemma deleteSessionScreenshots_subset:
  "set (blobs (snd (deleteSessionScreenshots e k w))) \<subseteq> set (blobs w)"
  using initDB_rest [of e w] range_delete_subset [of e "\<lambda>b. sessionKey b = k" "snd (initDB e w)"]
  by (auto simp add: deleteSessionScreenshots_def split: prod.splits sum.splits)

lemma deleteSessionScreenshots_none_left:
  assumes "\<forall>n. idb_fault e n = None" and "b \<in> set (blobs (snd (deleteSessionScreenshots e k w)))"
  shows "sessionKey b \<noteq> k"
proof -
  obtain w1 where i: "initDB e w = (Inr (), w1)"
    using initDB_ok [OF assms(1), of w] by (cases "initDB e w") auto
  have "b \<in> set (blobs (snd (range_delete e (\<lambda>b. sessionKey b = k) w1)))"
    using assms(2) i by (simp add: deleteSessionScreenshots_def)
  moreover have "idb_fault e (ticks w1) = None"
    using assms(1) by simp
  ultimately have "\<not> (\<lambda>b. sessionKey b = k) b"
    by (rule range_delete_none_left [rotated])
  then show ?thesis by simp
qed


text \<open>
  C10. Once the database is open, \<^verbatim>\<open>deleteScreenshot\<close> resolves to \<open>true\<close> whenever its
  delete request completes, whether or not a screenshot with that id exists (the store
  afterwards is the store without that id, which is the same store when the id was
  absent). On no path does it resolve to \<open>false\<close>: the only other outcome is a
  rejection, when the open or the request itself fails.
\<close>

theorem deleteScreenshot_always_true:
  "fst (deleteScreenshot e i w) \<noteq> Inr False \<and>
   (fst (initDB e w) = Inr () \<and> idb_fault e (ticks (snd (initDB e w))) = None \<longrightarrow>
      fst (deleteScreenshot e i w) = Inr True \<and>
      blobs (snd (deleteScreenshot e i w)) = filter (\<lambda>b. shot_id b \<noteq> i) (blobs w))"
  by (auto simp add: deleteScreenshot_def initDB_def tick_def split: option.splits prod.splits sum.splits if_splits)

theorem deleteScreenshot_always_true_witness:
  "fst (initDB demoEnv blobWorld) = Inr ()
   \<and> idb_fault demoEnv (ticks (snd (initDB demoEnv blobWorld))) = None
   \<and> fst (deleteScreenshot demoEnv ''screenshot_m1'' blobWorld) = Inr True
   \<and> blobs (snd (deleteScreenshot demoEnv ''screenshot_m1'' blobWorld)) = []
   \<and> fst (deleteScreenshot demoEnv ''screenshot_absent'' blobWorld) = Inr True
   \<and> blobs (snd (deleteScreenshot demoEnv ''screenshot_absent'' blobWorld)) = [shot1]"
  using deleteScreenshot_always_true [of demoEnv "''screenshot_m1''" blobWorld]
        deleteScreenshot_always_true [of demoEnv "''screenshot_absent''" blobWorld]
  by (simp add: demoEnv_def blobWorld_def emptyWorld_def initDB_def shot1_def)


section \<open>Capacity eviction\<close>

lemma deleteLoop_fst:
  "fst (deleteLoop e keys ss w) = filter (\<lambda>p. fst p \<notin> set keys) ss"
  by (induction keys arbitrary: ss w) (auto simp add: Let_def AList.delete_eq intro: filter_cong)

lemma deleteLoop_rest:
  "kv (snd (deleteLoop e keys ss w)) = kv w \<and> toasts (snd (deleteLoop e keys ss w)) = toasts w"
  by (induction keys arbitrary: ss w) (auto simp add: Let_def deleteSessionScreenshots_rest)

lemma deleteLoop_subset:
  "set (blobs (snd (deleteLoop e keys ss w))) \<subseteq> set (blobs w)"
proof (induction keys arbitrary: ss w)
  case Nil
  then show ?case by simp
next
  case (Cons k keys)
  show ?case
    using Cons.IH deleteSessionScreenshots_subset [of e k w]
    by (auto simp add: Let_def)
qed

lemma deleteLoop_none_left:
  assumes "\<forall>n. idb_fault e n = None" and "screenshotDB_defined e"
  shows "b \<in> set (blobs (snd (deleteLoop e keys ss w))) \<Longrightarrow> sessionKey b \<notin> set keys"
proof (induction keys arbitrary: ss w)
  case Nil
  then show ?case by simp
next
  case (Cons k keys)
  let ?w1 = "snd (deleteSessionScreenshots e k w)"
  have in_rest: "b \<in> set (blobs (snd (deleteLoop e keys (AList.delete k ss) ?w1)))"
    using Cons.prems assms(2) by (simp add: Let_def)
  then have "sessionKey b \<notin> set keys" by (rule Cons.IH)
  moreover have "b \<in> set (blobs ?w1)"
    using in_rest deleteLoop_subset by blast
  then have "sessionKey b \<noteq> k"
    using deleteSessionScreenshots_none_left [OF assms(1)] by blast
  ultimately show ?case by simp
qed

lemma sortedSessions_alt:
  "sortedSessions ss = drop 5 (sort_key (\<lambda>p. - recency p) ss)"
  by (simp add: sortedSessions_def recency_def split_def)

lemma kept_set:
  assumes "distinct (map fst ss)"
  shows "set (filter (\<lambda>p. fst p \<notin> set (map fst (drop n (sort_key f ss)))) ss)
         = set (take n (sort_key f ss))"
proof -
  let ?srt = "sort_key f ss"
  have d: "distinct (map fst ?srt)"
    using assms by (simp add: distinct_map)
  have "distinct (map fst (take n ?srt @ drop n ?srt))"
    using d by simp
  then have disj: "fst ` set (take n ?srt) \<inter> fst ` set (drop n ?srt) = {}"
    by (simp only: map_append distinct_append set_map) 
  have un: "set ss = set (take n ?srt) \<union> set (drop n ?srt)"
    by (metis append_take_drop_id set_append set_sort)
  show ?thesis
    using disj un by auto
qed

lemma kept_length:
  assumes "distinct (map fst ss)"
  shows "length (filter (\<lambda>p. fst p \<notin> set (map fst (drop n (sort_key f ss)))) ss)
         = min n (length ss)"
proof -
  let ?srt = "sort_key f ss"
  let ?kept = "filter (\<lambda>p. fst p \<notin> set (map fst (drop n ?srt))) ss"
  have "distinct ss" using assms by (simp add: distinct_map)
  then have "distinct ?kept" by simp
  then have "length ?kept = card (set ?kept)" by (rule distinct_card [symmetric])
  also have "\<dots> = card (set (take n ?srt))" by (simp only: kept_set [OF assms])
  also have "\<dots> = length (take n ?srt)"
    using \<open>distinct ss\<close> by (simp add: distinct_card)
  finally show ?thesis by (simp add: min.commute)
qed

lemma sorted_take_drop:
  assumes "a \<in> set (take n (sort_key f xs))" and "d \<in> set (drop n (sort_key f xs))"
  shows "f a \<le> f d"
proof -
  have "sorted (map f (take n (sort_key f xs) @ drop n (sort_key f xs)))"
    by simp
  then show ?thesis
    using assms by (simp only: map_append sorted_append set_map) blast
qed

lemma cleanupOldSessions_small:
  assumes "kv_fault e (ticks w) = None" and "length (sessions_of (kv w)) \<le> 5"
  shows "cleanupOldSessions e w = tick w"
  using assms by (simp add: cleanupOldSessions_def storage_get_def sessions_of_restrict Let_def)

lemma cleanupOldSessions_large:
  assumes "\<forall>n. kv_fault e n = None" and "5 < length (sessions_of (kv w))"
  shows "sessions_of (kv (cleanupOldSessions e w)) =
           filter (\<lambda>p. fst p \<notin> set (map fst (sortedSessions (sessions_of (kv w))))) (sessions_of (kv w))"
    and "blobs (cleanupOldSessions e w) =
           blobs (snd (deleteLoop e (map fst (sortedSessions (sessions_of (kv w)))) (sessions_of (kv w)) (tick w)))"
  using assms
  by (simp_all add: cleanupOldSessions_def storage_get_def storage_set_def sessions_of_restrict
        Let_def split_beta deleteLoop_fst showToast_def tick_def sessions_of_def [of "_(_ \<mapsto> _)"])


text \<open>
  C2. Capacity eviction on a collection with distinct keys, with a working
  \<^verbatim>\<open>chrome.storage.local\<close>: five or fewer sessions are all kept; of more than five,
  exactly five survive, and every survivor was updated at least as recently
  (\<^verbatim>\<open>updatedAt || 0\<close>) as every deleted session. When in addition the screenshot module
  is loaded and IndexedDB does not fail, no screenshot is left whose \<^verbatim>\<open>sessionKey\<close> is
  that of a deleted session.
\<close>

theorem cleanupOldSessions_keeps_five_newest:
  assumes "\<forall>n. kv_fault e n = None"
    and "distinct (map fst (sessions_of (kv w)))"
  shows "(length (sessions_of (kv w)) \<le> 5 \<longrightarrow>
            sessions_of (kv (cleanupOldSessions e w)) = sessions_of (kv w))
       \<and> (5 < length (sessions_of (kv w)) \<longrightarrow>
            length (sessions_of (kv (cleanupOldSessions e w))) = 5
          \<and> set (sessions_of (kv (cleanupOldSessions e w))) \<subseteq> set (sessions_of (kv w))
          \<and> (\<forall>a \<in> set (sessions_of (kv (cleanupOldSessions e w))).
               \<forall>d \<in> set (sessions_of (kv w)) - set (sessions_of (kv (cleanupOldSessions e w))).
                 recency d \<le> recency a))
       \<and> ((\<forall>n. idb_fault e n = None) \<and> screenshotDB_defined e \<longrightarrow>
            (\<forall>b \<in> set (blobs (cleanupOldSessions e w)).
               sessionKey b \<in> fst ` set (sessions_of (kv w)) \<longrightarrow>
               sessionKey b \<in> fst ` set (sessions_of (kv (cleanupOldSessions e w)))))"
proof (cases "length (sessions_of (kv w)) \<le> 5")
  case True
  have "cleanupOldSessions e w = tick w"
    using assms(1) True by (simp add: cleanupOldSessions_small)
  then show ?thesis using True by (simp add: tick_def)
next
  case False
  let ?ss = "sessions_of (kv w)"
  let ?f = "\<lambda>p. - recency p"
  let ?srt = "sort_key ?f ?ss"
  let ?after = "sessions_of (kv (cleanupOldSessions e w))"
  have big: "5 < length ?ss" using False by simp
  have after: "?after = filter (\<lambda>p. fst p \<notin> set (map fst (drop 5 ?srt))) ?ss"
    using cleanupOldSessions_large(1) [OF assms(1) big] by (simp add: sortedSessions_alt)
  have set_after: "set ?after = set (take 5 ?srt)"
    unfolding after by (rule kept_set [OF assms(2)])
  have len: "length ?after = 5"
    unfolding after using kept_length [OF assms(2), of 5 ?f] big by simp
  have sub: "set ?after \<subseteq> set ?ss"
    unfolding after by auto
  have un: "set ?ss = set (take 5 ?srt) \<union> set (drop 5 ?srt)"
    by (metis append_take_drop_id set_append set_sort)
  have ord: "recency d \<le> recency a" if "a \<in> set ?after" and "d \<in> set ?ss - set ?after" for a d
  proof -
    have "a \<in> set (take 5 ?srt)" using that(1) set_after by simp
    moreover have "d \<in> set (drop 5 ?srt)" using that(2) set_after un by auto
    ultimately have "?f a \<le> ?f d" by (rule sorted_take_drop)
    then show ?thesis by simp
  qed
  have blob: "sessionKey b \<in> fst ` set ?after"
    if ok: "\<forall>n. idb_fault e n = None" "screenshotDB_defined e"
      and b: "b \<in> set (blobs (cleanupOldSessions e w))"
      and k: "sessionKey b \<in> fst ` set ?ss" for b
  proof -
    have "b \<in> set (blobs (snd (deleteLoop e (map fst (drop 5 ?srt)) ?ss (tick w))))"
      using b cleanupOldSessions_large(2) [OF assms(1) big] by (simp add: sortedSessions_alt)
    then have "sessionKey b \<notin> set (map fst (drop 5 ?srt))"
      by (rule deleteLoop_none_left [OF ok])
    moreover obtain p where "p \<in> set ?ss" "fst p = sessionKey b"
      using k by auto
    ultimately have "p \<in> set ?after"
      unfolding after by auto
    then show ?thesis using \<open>fst p = sessionKey b\<close> by (metis imageI)
  qed
  show ?thesis
    using False len sub ord blob by blast
qed


lemma sixSessions_sorted:
  "sortedSessions sixSessions =
     [(''www.youtube.com|a|2023-08-01'', mkSession ''https://www.youtube.com/watch?v=a'' 1690900000000)]"
  by (simp add: sortedSessions_def sixSessions_def mkSession_def num_or_def)

lemma sixSessions_length: "length sixSessions = 6"
  by (simp add: sixSessions_def)

lemma sixSessions_keys:
  "map fst sixSessions =
     [''www.youtube.com|b|2023-11-10'', ''www.youtube.com|c|2023-11-11'',
      ''www.youtube.com|a|2023-08-01'', ''www.youtube.com|d|2023-11-12'',
      ''www.youtube.com|e|2023-11-13'', ''www.youtube.com|f|2023-11-14'']"
  by (simp add: sixSessions_def)

lemma sixSessions_deleted:
  "map fst (AList.delete ''www.youtube.com|a|2023-08-01'' sixSessions) =
     [''www.youtube.com|b|2023-11-10'', ''www.youtube.com|c|2023-11-11'',
      ''www.youtube.com|d|2023-11-12'',
      ''www.youtube.com|e|2023-11-13'', ''www.youtube.com|f|2023-11-14'']"
  by (simp add: sixSessions_def AList.delete_eq)

theorem cleanupOldSessions_keeps_five_newest_witness:
  "(\<forall>n. kv_fault demoEnv n = None)
   \<and> distinct (map fst (sessions_of (kv sixWorld)))
   \<and> 5 < length (sessions_of (kv sixWorld))
   \<and> (\<forall>n. idb_fault demoEnv n = None) \<and> screenshotDB_defined demoEnv
   \<and> map fst (sessions_of (kv (cleanupOldSessions demoEnv sixWorld)))
       = [''www.youtube.com|b|2023-11-10'', ''www.youtube.com|c|2023-11-11'',
          ''www.youtube.com|d|2023-11-12'', ''www.youtube.com|e|2023-11-13'',
          ''www.youtube.com|f|2023-11-14'']
   \<and> blobs sixWorld = [shot1, shot2]
   \<and> blobs (cleanupOldSessions demoEnv sixWorld) = [shot2]"
  using cleanupOldSessions_keeps_five_newest [of demoEnv sixWorld]
  by (simp add: cleanupOldSessions_def demoEnv_def sixWorld_def blobWorld_def emptyWorld_def
       storage_get_def storage_set_def sessions_of_def sixSessions_sorted sixSessions_length
       sixSessions_keys sixSessions_deleted
       Let_def tick_def showToast_def deleteSessionScreenshots_def
       initDB_def range_delete_def shot1_def shot2_def dec.simps digit_def
       SESSIONS_KEY_def STORAGE_PREFIX_def)

section \<open>Age eviction\<close>

lemma getSettings_ok:
  "kv_fault e (ticks w) = None \<Longrightarrow> kv w SETTINGS_KEY = Some (VSettings s) \<Longrightarrow>
   getSettings e w = (s, tick w)"
  by (simp add: getSettings_def storage_get_def)

text \<open>
  C3, as amended. The once-a-day check lives in the caller
  \<^verbatim>\<open>checkAndRunProgressiveCleanup\<close>: when Settings can be read and record a
  \<^verbatim>\<open>lastCleanup\<close> no more than 24 hours before the clock reading, the call does
  nothing: both stores, Settings, the toasts and the operation log are as before.
\<close>

theorem checkAndRun_noop:
  assumes "kv_fault e (ticks w) = None"
    and "kv w SETTINGS_KEY = Some (VSettings s)"
    and "lastCleanup s = Some t"
    and "clock e (Suc (ticks w)) - t \<le> oneDay"
  shows "checkAndRunProgressiveCleanup e w = w\<lparr>ticks := ticks w + 2\<rparr>"
  using assms
  by (auto simp add: checkAndRunProgressiveCleanup_def getSettings_ok Date_now_def tick_def num_or_def oneDay_def Let_def)

lemma sweptOnce_eq:
  "sweptOnce =
     \<lparr>kv = [SETTINGS_KEY \<mapsto> VSettings (defaultSettings\<lparr>lastCleanup := Some 1700000000006\<rparr>)],
      blobs = [], db = True, toasts = [],
      oplog = [KVSet [(SETTINGS_KEY, VSettings (defaultSettings\<lparr>lastCleanup := Some 1700000000006\<rparr>))]],
      ticks = 8\<rparr>"
  by (simp add: sweptOnce_def progressiveCleanup_def cleanupScreenshotsStep_def
      cleanupSessionsStep_def demoEnv_def emptyWorld_def
      cleanupOldScreenshots_def initDB_def tick_def Date_now_def range_delete_def
      storage_get_def storage_set_def sessions_of_def getSettings_def saveSettings_def
      SETTINGS_KEY_def SESSIONS_KEY_def STORAGE_PREFIX_def Let_def)

theorem checkAndRun_noop_witness:
  "kv_fault demoEnv (ticks sweptOnce) = None
   \<and> kv sweptOnce SETTINGS_KEY = Some (VSettings (defaultSettings\<lparr>lastCleanup := Some 1700000000006\<rparr>))
   \<and> clock demoEnv (Suc (ticks sweptOnce)) - 1700000000006 \<le> oneDay
   \<and> checkAndRunProgressiveCleanup demoEnv sweptOnce = sweptOnce\<lparr>ticks := 10\<rparr>"
  using checkAndRun_noop [of demoEnv sweptOnce "defaultSettings\<lparr>lastCleanup := Some 1700000000006\<rparr>"
          1700000000006]
  by (simp add: sweptOnce_eq demoEnv_def oneDay_def)

text \<open>
  C3, as stated, fails for the sweep itself: \<^verbatim>\<open>progressiveCleanup\<close> has no such check
  (\<^verbatim>\<open>manualCleanup\<close> calls it directly). A second sweep a few milliseconds after a
  completed one runs again and rewrites \<^verbatim>\<open>lastCleanup\<close> in Settings.
\<close>

theorem progressiveCleanup_second_run_counterexample:
  "clock demoEnv (Suc (ticks sweptOnce)) - 1700000000006 \<le> oneDay
   \<and> kv sweptOnce SETTINGS_KEY
       = Some (VSettings (defaultSettings\<lparr>lastCleanup := Some 1700000000006\<rparr>))
   \<and> kv (snd (progressiveCleanup demoEnv sweptOnce)) SETTINGS_KEY
       = Some (VSettings (defaultSettings\<lparr>lastCleanup := Some 1700000000013\<rparr>))
   \<and> kv (snd (progressiveCleanup demoEnv sweptOnce)) SETTINGS_KEY \<noteq> kv sweptOnce SETTINGS_KEY"
  by (simp add: sweptOnce_eq progressiveCleanup_def cleanupScreenshotsStep_def
      cleanupSessionsStep_def demoEnv_def
      cleanupOldScreenshots_def initDB_def tick_def Date_now_def range_delete_def
      storage_get_def storage_set_def sessions_of_def getSettings_def saveSettings_def
      SETTINGS_KEY_def SESSIONS_KEY_def STORAGE_PREFIX_def Let_def oneDay_def
      defaultSettings_def)

lemma cleanupSessionsStep_blobs:
  "blobs (snd (cleanupSessionsStep e n w)) = blobs w"
  by (auto simp add: cleanupSessionsStep_def storage_get_def Let_def split_beta Date_now_def
      tick_def saveSettings_def storage_set_blobs getSettings_snd
      split: option.splits sum.splits prod.splits if_splits)

lemma cleanupSessionsStep_oplog:
  "\<exists>sets. oplog (snd (cleanupSessionsStep e n w)) = oplog w @ sets \<and> list_all isKVSet sets"
  by (auto simp add: cleanupSessionsStep_def storage_get_def storage_set_def Let_def split_beta
      Date_now_def tick_def saveSettings_def getSettings_def
      split: option.splits sum.splits kv_value.splits)

lemma filter_no_old:
  "filter old ss = [] \<Longrightarrow> filter (\<lambda>p. fst p \<notin> fst ` set (filter old ss)) ss = ss"
  by simp

lemma cleanupSessionsStep_sessions:
  assumes "\<forall>n. kv_fault e n = None"
  shows "sessions_of (kv (snd (cleanupSessionsStep e n w))) =
           filter (\<lambda>p. fst p \<notin> fst ` set (filter (isOldSession (clock e (Suc (ticks w)) - ninetyDays))
                                               (sessions_of (kv w))))
                  (sessions_of (kv w))"
proof (cases "filter (isOldSession (clock e (Suc (ticks w)) - ninetyDays)) (sessions_of (kv w)) = []")
  case True
  then show ?thesis
    using assms
    by (simp add: cleanupSessionsStep_def storage_get_def storage_set_def Let_def split_beta
      Date_now_def tick_def saveSettings_def getSettings_snd sessions_of_restrict
      sessions_of_upd_settings)
next
  case False
  then show ?thesis
    using assms
    by (simp add: cleanupSessionsStep_def storage_get_def storage_set_def Let_def split_beta
      Date_now_def tick_def saveSettings_def getSettings_snd sessions_of_restrict
      sessions_of_upd_settings sessions_of_upd_sessions fold_delete_filter)
qed

lemma cleanupSessionsStep_none_old:
  assumes "\<forall>n. kv_fault e n = None"
    and "p \<in> set (sessions_of (kv (snd (cleanupSessionsStep e n w))))"
  shows "\<not> isOldSession (clock e (Suc (ticks w)) - ninetyDays) p"
  using assms(2) unfolding cleanupSessionsStep_sessions [OF assms(1)] by auto

lemma cleanupOldScreenshots_kv: "kv (snd (cleanupOldScreenshots e m w)) = kv w"
  using initDB_rest [of e w]
  by (auto simp add: cleanupOldScreenshots_def Date_now_def tick_def split_beta range_delete_rest
      split: sum.splits)

lemma cleanupOldScreenshots_oplog:
  "\<exists>dels. oplog (snd (cleanupOldScreenshots e m w)) = oplog w @ dels \<and> list_all isIDBDelete dels"
proof (cases "fst (initDB e w)")
  case (Inl err)
  then show ?thesis
    using initDB_rest [of e w] by (cases "initDB e w") (simp add: cleanupOldScreenshots_def)
next
  case (Inr u)
  let ?w2 = "tick (snd (initDB e w))"
  let ?P = "\<lambda>b. shot_createdAt b \<le> clock e (ticks (snd (initDB e w))) - m"
  have eq: "snd (cleanupOldScreenshots e m w) = snd (range_delete e ?P ?w2)"
    using Inr by (cases "initDB e w") (simp add: cleanupOldScreenshots_def Date_now_def)
  have base: "oplog ?w2 = oplog w"
    using initDB_rest [of e w] by (simp add: tick_def)
  show ?thesis
  proof (cases "idb_fault e (ticks ?w2)")
    case None
    have "oplog (snd (range_delete e ?P ?w2)) =
            oplog ?w2 @ map (\<lambda>c. IDBDelete (shot_id c)) (filter ?P (blobs ?w2))"
      by (rule range_delete_ok(3) [OF None])
    moreover have "list_all isIDBDelete (map (\<lambda>c. IDBDelete (shot_id c)) (filter ?P (blobs ?w2)))"
      by (simp add: list_all_iff)
    ultimately show ?thesis using eq base by auto
  next
    case (Some err)
    then have "oplog (snd (range_delete e ?P ?w2)) = oplog ?w2"
      by (simp add: range_delete_def tick_def)
    then show ?thesis using eq base by simp
  qed
qed

lemma cleanupOldScreenshots_none_old:
  assumes "\<forall>n. idb_fault e n = None"
    and "b \<in> set (blobs (snd (cleanupOldScreenshots e m w)))"
  shows "\<not> shot_createdAt b \<le> clock e (sweepTick e w) - m"
proof -
  let ?w2 = "tick (snd (initDB e w))"
  let ?P = "\<lambda>b. shot_createdAt b \<le> clock e (ticks (snd (initDB e w))) - m"
  have "fst (initDB e w) = Inr ()" using assms(1) by (rule initDB_ok)
  then have eq: "snd (cleanupOldScreenshots e m w) = snd (range_delete e ?P ?w2)"
    by (cases "initDB e w") (simp add: cleanupOldScreenshots_def Date_now_def)
  have "idb_fault e (ticks ?w2) = None" using assms(1) by simp
  moreover have "b \<in> set (blobs (snd (range_delete e ?P ?w2)))"
    using assms(2) eq by simp
  ultimately have "\<not> ?P b" by (rule range_delete_none_left)
  then show ?thesis by (simp add: sweepTick_def)
qed

lemma cleanupOldScreenshots_ticks:
  assumes "\<forall>n. idb_fault e n = None"
  shows "ticks (snd (cleanupOldScreenshots e m w)) = sweepTick e w + 2"
proof -
  have "fst (initDB e w) = Inr ()" using assms(1) by (rule initDB_ok)
  then show ?thesis
    by (cases "initDB e w")
       (simp add: cleanupOldScreenshots_def Date_now_def range_delete_rest tick_def sweepTick_def)
qed

lemma cleanupScreenshotsStep_kv: "kv (snd (cleanupScreenshotsStep e w)) = kv w"
  using cleanupOldScreenshots_kv [of e thirtyDays w]
  by (simp add: cleanupScreenshotsStep_def split_beta split: sum.splits)

lemma cleanupScreenshotsStep_oplog:
  "\<exists>dels. oplog (snd (cleanupScreenshotsStep e w)) = oplog w @ dels \<and> list_all isIDBDelete dels"
  using cleanupOldScreenshots_oplog [of e thirtyDays w]
  by (simp add: cleanupScreenshotsStep_def split_beta split: sum.splits)

lemma cleanupScreenshotsStep_snd:
  "screenshotDB_defined e \<Longrightarrow>
   snd (cleanupScreenshotsStep e w) = snd (cleanupOldScreenshots e thirtyDays w)"
  by (simp add: cleanupScreenshotsStep_def split_beta split: sum.splits)

lemma progressiveCleanup_snd:
  "snd (progressiveCleanup e w) =
     snd (cleanupSessionsStep e (fst (cleanupScreenshotsStep e w)) (snd (cleanupScreenshotsStep e w)))"
  by (simp add: progressiveCleanup_def split_beta)

lemma order_of_log:
  assumes "new = dels @ sets" and "list_all isIDBDelete dels" and "list_all isKVSet sets"
  shows "list_all isKVSet (dropWhile isIDBDelete new)"
proof -
  have "dropWhile isIDBDelete new = dropWhile isIDBDelete sets"
    using assms(1,2) by (simp add: list_all_iff)
  moreover have "set (dropWhile isIDBDelete sets) \<subseteq> set sets"
    by (auto dest: set_dropWhileD)
  ultimately show ?thesis
    using assms(3) by (auto simp add: list_all_iff)
qed

text \<open>
  C6. In the operation log of a sweep, whatever fails, every deletion of a screenshot
  comes before every write to \<^verbatim>\<open>chrome.storage.local\<close> (the write of the thinned
  sessions collection is what deletes the aged sessions). After a sweep in which neither
  backend fails and the screenshot module is loaded, no screenshot is left with
  \<^verbatim>\<open>createdAt\<close> more than 30 days before the clock reading of the screenshot step, and
  no session is left whose \<^verbatim>\<open>updatedAt\<close> (when set, that is non-zero) is more than 90
  days before the clock reading of the session step.
\<close>

theorem progressiveCleanup_order_and_ages:
  "take (length (oplog w)) (oplog (snd (progressiveCleanup e w))) = oplog w
   \<and> list_all isKVSet
        (dropWhile isIDBDelete (drop (length (oplog w)) (oplog (snd (progressiveCleanup e w)))))
   \<and> ((\<forall>n. kv_fault e n = None) \<and> (\<forall>n. idb_fault e n = None) \<and> screenshotDB_defined e \<longrightarrow>
        (\<forall>b \<in> set (blobs (snd (progressiveCleanup e w))).
           \<not> shot_createdAt b < clock e (sweepTick e w) - thirtyDays)
      \<and> (\<forall>p \<in> set (sessions_of (kv (snd (progressiveCleanup e w)))).
           \<forall>u. updatedAt (snd p) = Some u \<and> u \<noteq> 0 \<longrightarrow>
               \<not> u < clock e (sweepTick e w + 3) - ninetyDays))"
proof -
  let ?w1 = "snd (cleanupScreenshotsStep e w)"
  let ?n = "fst (cleanupScreenshotsStep e w)"
  let ?w' = "snd (progressiveCleanup e w)"
  have w': "?w' = snd (cleanupSessionsStep e ?n ?w1)"
    by (rule progressiveCleanup_snd)
  obtain dels where dels: "oplog ?w1 = oplog w @ dels" "list_all isIDBDelete dels"
    using cleanupScreenshotsStep_oplog by blast
  obtain sets where sets: "oplog ?w' = oplog ?w1 @ sets" "list_all isKVSet sets"
    using cleanupSessionsStep_oplog [of e ?n ?w1] w' by auto
  have log: "oplog ?w' = oplog w @ (dels @ sets)"
    using dels(1) sets(1) by simp
  have order1: "take (length (oplog w)) (oplog ?w') = oplog w"
    using log by simp
  have "drop (length (oplog w)) (oplog ?w') = dels @ sets"
    using log by simp
  then have order2: "list_all isKVSet (dropWhile isIDBDelete (drop (length (oplog w)) (oplog ?w')))"
    using dels(2) sets(2) by (rule order_of_log)
  have ages: "(\<forall>b \<in> set (blobs ?w'). \<not> shot_createdAt b < clock e (sweepTick e w) - thirtyDays)
      \<and> (\<forall>p \<in> set (sessions_of (kv ?w')).
           \<forall>u. updatedAt (snd p) = Some u \<and> u \<noteq> 0 \<longrightarrow>
               \<not> u < clock e (sweepTick e w + 3) - ninetyDays)"
    if kvok: "\<forall>n. kv_fault e n = None" and idbok: "\<forall>n. idb_fault e n = None"
      and defd: "screenshotDB_defined e"
  proof (intro conjI ballI allI impI)
    fix b assume "b \<in> set (blobs ?w')"
    then have "b \<in> set (blobs (snd (cleanupOldScreenshots e thirtyDays w)))"
      using w' cleanupSessionsStep_blobs [of e ?n ?w1] cleanupScreenshotsStep_snd [OF defd, of w]
      by simp
    then have "\<not> shot_createdAt b \<le> clock e (sweepTick e w) - thirtyDays"
      by (rule cleanupOldScreenshots_none_old [OF idbok])
    then show "\<not> shot_createdAt b < clock e (sweepTick e w) - thirtyDays" by simp
  next
    fix p u assume p: "p \<in> set (sessions_of (kv ?w'))" and u: "updatedAt (snd p) = Some u \<and> u \<noteq> 0"
    have t: "ticks ?w1 = sweepTick e w + 2"
      using cleanupOldScreenshots_ticks [OF idbok, of thirtyDays w]
        cleanupScreenshotsStep_snd [OF defd, of w] by simp
    have "\<not> isOldSession (clock e (Suc (ticks ?w1)) - ninetyDays) p"
      using p w' cleanupSessionsStep_none_old [OF kvok, of p ?n ?w1] by simp
    then show "\<not> u < clock e (sweepTick e w + 3) - ninetyDays"
      using u t by (simp add: isOldSession_def num_or_def numeral_3_eq_3)
  qed
  show ?thesis
    using order1 order2 ages by blast
qed

lemma sixSessions_old:
  "filter (isOldSession (1700000000003 - ninetyDays)) sixSessions =
     [(''www.youtube.com|a|2023-08-01'', mkSession ''https://www.youtube.com/watch?v=a'' 1690900000000)]"
  by (simp add: sixSessions_def mkSession_def isOldSession_def num_or_def ninetyDays_def)

theorem progressiveCleanup_order_and_ages_witness:
  "(\<forall>n. kv_fault demoEnv n = None) \<and> (\<forall>n. idb_fault demoEnv n = None)
   \<and> screenshotDB_defined demoEnv
   \<and> blobs sixWorld = [shot1, shot2]
   \<and> blobs (snd (progressiveCleanup demoEnv sixWorld)) = [shot2]
   \<and> \<not> shot_createdAt shot2 < clock demoEnv (sweepTick demoEnv sixWorld) - thirtyDays
   \<and> map fst (sessions_of (kv (snd (progressiveCleanup demoEnv sixWorld))))
       = [''www.youtube.com|b|2023-11-10'', ''www.youtube.com|c|2023-11-11'',
          ''www.youtube.com|d|2023-11-12'', ''www.youtube.com|e|2023-11-13'',
          ''www.youtube.com|f|2023-11-14'']
   \<and> map isIDBDelete (oplog (snd (progressiveCleanup demoEnv sixWorld))) = [True, False, False]"
  using progressiveCleanup_order_and_ages [where e = demoEnv and w = sixWorld]
  by (simp add: progressiveCleanup_def cleanupScreenshotsStep_def cleanupSessionsStep_def
       cleanupOldScreenshots_def demoEnv_def sixWorld_def blobWorld_def emptyWorld_def
       initDB_def range_delete_def Date_now_def tick_def shot1_def shot2_def thirtyDays_def
       storage_get_def storage_set_def sessions_of_def sixSessions_old sixSessions_deleted
       getSettings_def saveSettings_def Let_def sweepTick_def
       SESSIONS_KEY_def SETTINGS_KEY_def STORAGE_PREFIX_def)

section \<open>Session keys\<close>

text \<open>The example platform's clock readings as ISO strings.\<close>

lemma civilFromDays_examples:
  "civilFromDays 19675 = (2023, 11, 14)"
  "civilFromDays 19676 = (2023, 11, 15)"
  by code_simp+

lemma utcISOString_examples:
  "utcISOString 1700000000000 = ''2023-11-14T22:13:20.000Z''"
  "utcISOString 1700000000001 = ''2023-11-14T22:13:20.001Z''"
  "utcISOString 1700000005000 = ''2023-11-14T22:13:25.000Z''"
  "utcISOString 1700006400000 = ''2023-11-15T00:00:00.000Z''"
  by (simp add: utcISOString_def civilFromDays_examples, simp add: pad_def,
      simp add: dec.simps digit_def)+

lemma extractVideoId_parsed:
  assumes "new_URL e url' = Some u"
  shows "snd (extractVideoId e url' w) = w"
    and "fst (extractVideoId e url' w) = fst (extractVideoId e url' w2)"
  using assms
  by (auto simp add: extractVideoId_def Let_def split: option.splits)

text \<open>
  C7, as amended. For a url that the \<^verbatim>\<open>URL\<close> constructor accepts, the key is
  \<^verbatim>\<open>hostname|videoId|isoDate\<close>, the video id depends on the url alone, and two calls
  return the same key exactly when they read the same UTC calendar date: the key is
  stable within a day and changes when the date does.
\<close>

theorem getSessionKey_stable_within_day:
  assumes "new_URL e url' = Some u"
  shows "fst (getSessionKey e url' w)
           = hostname u @ ''|'' @ fst (extractVideoId e url' w) @ ''|'' @ isoDate e (clock e (ticks w))
       \<and> fst (extractVideoId e url' w) = fst (extractVideoId e url' w2)
       \<and> (fst (getSessionKey e url' w) = fst (getSessionKey e url' w2)
            \<longleftrightarrow> isoDate e (clock e (ticks w)) = isoDate e (clock e (ticks w2)))"
proof -
  have k: "fst (getSessionKey e url' v)
           = hostname u @ ''|'' @ fst (extractVideoId e url' v) @ ''|'' @ isoDate e (clock e (ticks v))"
    for v
    using assms extractVideoId_parsed(1) [OF assms, of v]
    by (simp add: getSessionKey_def split_beta Date_now_def)
  have v: "fst (extractVideoId e url' w) = fst (extractVideoId e url' w2)"
    by (rule extractVideoId_parsed(2) [OF assms])
  show ?thesis
    using k [of w] k [of w2] v by simp
qed

theorem getSessionKey_stable_within_day_witness:
  "new_URL demoEnv ''https://www.youtube.com/watch?v=dQw4w9WgXcQ''
     = Some \<lparr>hostname = ''www.youtube.com'', pathname = ''/watch'',
             searchParams = [(''v'', ''dQw4w9WgXcQ'')]\<rparr>
   \<and> fst (getSessionKey demoEnv ''https://www.youtube.com/watch?v=dQw4w9WgXcQ'' emptyWorld)
       = ''www.youtube.com|dQw4w9WgXcQ|2023-11-14''
   \<and> fst (getSessionKey demoEnv ''https://www.youtube.com/watch?v=dQw4w9WgXcQ''
             (emptyWorld\<lparr>ticks := 5000\<rparr>))
       = ''www.youtube.com|dQw4w9WgXcQ|2023-11-14''
   \<and> fst (getSessionKey demoEnv ''https://www.youtube.com/watch?v=dQw4w9WgXcQ''
             (emptyWorld\<lparr>ticks := 6400000\<rparr>))
       = ''www.youtube.com|dQw4w9WgXcQ|2023-11-15''"
  using getSessionKey_stable_within_day
          [of demoEnv "''https://www.youtube.com/watch?v=dQw4w9WgXcQ''"
              "\<lparr>hostname = ''www.youtube.com'', pathname = ''/watch'',
                searchParams = [(''v'', ''dQw4w9WgXcQ'')]\<rparr>" emptyWorld
              "emptyWorld\<lparr>ticks := 6400000\<rparr>"]
  by (simp add: getSessionKey_def extractVideoId_def new_URL_def demoEnv_def emptyWorld_def
       isoDate_def utcISOString_examples Date_now_def tick_def toLowerCase_def str_or_def
       Let_def)

text \<open>
  C7, as stated for every url, fails on a string the \<^verbatim>\<open>URL\<close> constructor rejects: the
  \<^verbatim>\<open>catch\<close> returns \<^verbatim>\<open>unknown|\<close> followed by \<^verbatim>\<open>Date.now()\<close>, so two calls one
  millisecond apart on the same day return different keys, neither of the form
  \<^verbatim>\<open>hostname|videoId|isoDate\<close>.
\<close>

theorem getSessionKey_unparsable_counterexample:
  "isoDate demoEnv (clock demoEnv 0) = isoDate demoEnv (clock demoEnv 1)
   \<and> fst (getSessionKey demoEnv ''not a url'' emptyWorld) = ''unknown|1700000000000''
   \<and> fst (getSessionKey demoEnv ''not a url'' (emptyWorld\<lparr>ticks := 1\<rparr>)) = ''unknown|1700000000001''
   \<and> fst (getSessionKey demoEnv ''not a url'' emptyWorld)
       \<noteq> fst (getSessionKey demoEnv ''not a url'' (emptyWorld\<lparr>ticks := 1\<rparr>))"
  by (simp add: getSessionKey_def new_URL_def demoEnv_def emptyWorld_def isoDate_def utcISOString_examples
       Date_now_def tick_def dec_int_def dec.simps digit_def)

section \<open>Sessions\<close>









lemma getSessionKey_has_bar: "CHR ''|'' \<in> set (fst (getSessionKey e u w))"
  by (cases "new_URL e u") (simp_all add: getSessionKey_def split_beta Date_now_def)

lemma members_have_no_bar: "m \<in> set objectPrototypeMembers \<Longrightarrow> CHR ''|'' \<notin> set m"
  by (auto simp add: objectPrototypeMembers_def)

text \<open>
  A derived key contains a bar and so never names an inherited member; only an explicit
  key can.
\<close>

lemma derived_key_not_inherited:
  "str_or key [] = [] \<Longrightarrow> fst (resolveKey e url' key w) \<notin> set objectPrototypeMembers"
  using getSessionKey_has_bar [of e url' w] members_have_no_bar
  by (auto simp add: resolveKey_def)



text \<open>
  A key that names an inherited member and has no record: the test
  \<^verbatim>\<open>!sessions[sessionKey]\<close> is false, so no record is created, the collection is
  written back empty, and what is returned is the inherited member.
\<close>

lemma beginSession_inherited_key:
  "fst (beginSession demoEnv ''https://www.youtube.com/watch?v=dQw4w9WgXcQ'' None
          (Some ''constructor'') emptyWorld) = PrototypeMember ''constructor''
   \<and> kv (snd (beginSession demoEnv ''https://www.youtube.com/watch?v=dQw4w9WgXcQ'' None
          (Some ''constructor'') emptyWorld))
       = [SESSIONS_KEY \<mapsto> VSessions [], LAST_ACTIVE_KEY \<mapsto> VString ''constructor'']"
  by (simp add: beginSession_def resolveKey_def str_or_def demoEnv_def emptyWorld_def
      getProperty_def objectPrototypeMembers_def
      Date_now_def tick_def storage_get_def storage_set_def sessions_of_def
      Let_def SESSIONS_KEY_def LAST_ACTIVE_KEY_def STORAGE_PREFIX_def)

lemma delete_absent: "map_of ss k = None \<Longrightarrow> AList.delete k ss = ss"
  by (induction ss) (auto simp add: AList.delete_eq split: if_splits)

lemma delete_twice: "AList.delete k (AList.delete k ss) = AList.delete k ss"
  by (simp add: AList.delete_eq)

lemma cascade_nothing_left:
  assumes "\<forall>n. idb_fault e n = None" and "\<forall>b \<in> set (blobs w). sessionKey b \<noteq> k"
  shows "fst (deleteSessionScreenshots e k w) = Inr 0"
    and "blobs (snd (deleteSessionScreenshots e k w)) = blobs w"
    and "oplog (snd (deleteSessionScreenshots e k w)) = oplog w"
proof -
  obtain w1 where i: "initDB e w = (Inr (), w1)"
    using initDB_ok [OF assms(1), of w] by (cases "initDB e w") auto
  have w1: "blobs w1 = blobs w" "oplog w1 = oplog w"
    using initDB_rest [of e w] i by simp_all
  have none: "filter (\<lambda>b. sessionKey b = k) (blobs w1) = []"
    using assms(2) w1 by (simp add: filter_empty_conv)
  have ok: "idb_fault e (ticks w1) = None" using assms(1) by simp
  have r1: "fst (range_delete e (\<lambda>b. sessionKey b = k) w1) = Inr 0"
    using range_delete_ok(1) [OF ok, of "\<lambda>b. sessionKey b = k"] unfolding none by simp
  have r2: "blobs (snd (range_delete e (\<lambda>b. sessionKey b = k) w1)) = blobs w1"
    using range_delete_ok(2) [OF ok, of "\<lambda>b. sessionKey b = k"] unfolding none by simp
  have r3: "oplog (snd (range_delete e (\<lambda>b. sessionKey b = k) w1)) = oplog w1"
    using range_delete_ok(3) [OF ok, of "\<lambda>b. sessionKey b = k"] unfolding none by simp
  show "fst (deleteSessionScreenshots e k w) = Inr 0"
    using i r1 by (simp add: deleteSessionScreenshots_def)
  show "blobs (snd (deleteSessionScreenshots e k w)) = blobs w"
    using i r2 w1 by (simp add: deleteSessionScreenshots_def)
  show "oplog (snd (deleteSessionScreenshots e k w)) = oplog w"
    using i r3 w1 by (simp add: deleteSessionScreenshots_def)
qed

text \<open>The world in which \<^verbatim>\<open>deleteSession\<close> writes the collection back.\<close>

lemma deleteSession_ok:
  assumes "\<forall>n. kv_fault e n = None"
  shows "deleteSession e k w =
     (let w2 = (if screenshotDB_defined e then snd (deleteSessionScreenshots e k (tick w)) else tick w)
      in showToast ''Session deleted'' ''success''
           (tick (w2\<lparr>kv := (kv w2)(SESSIONS_KEY \<mapsto> VSessions (AList.delete k (sessions_of (kv w)))),
                     oplog := oplog w2 @ [KVSet [(SESSIONS_KEY, VSessions (AList.delete k (sessions_of (kv w))))]]\<rparr>)))"
  using assms
  by (simp add: deleteSession_def storage_get_def storage_set_def sessions_of_restrict Let_def)

lemma deleteSession_fields:
  assumes "\<forall>n. kv_fault e n = None"
  shows "kv (deleteSession e k w) = (kv w)(SESSIONS_KEY \<mapsto> VSessions (AList.delete k (sessions_of (kv w))))"
    and "toasts (deleteSession e k w) = toasts w @ [Toast ''Session deleted'' ''success'']"
    and "blobs (deleteSession e k w) =
           (if screenshotDB_defined e then blobs (snd (deleteSessionScreenshots e k (tick w))) else blobs w)"
    and "oplog (deleteSession e k w) =
           (if screenshotDB_defined e then oplog (snd (deleteSessionScreenshots e k (tick w))) else oplog w)
           @ [KVSet [(SESSIONS_KEY, VSessions (AList.delete k (sessions_of (kv w))))]]"
  using deleteSessionScreenshots_rest [of e k "tick w"]
  by (simp_all add: deleteSession_ok [OF assms] Let_def showToast_def tick_def)

text \<open>
  C8. With both backends working, a second \<^verbatim>\<open>deleteSession\<close> of the same key changes
  neither store: it shows the success toast, its cascade into IndexedDB finds and deletes
  zero screenshots, and its one write puts back the collection it read. Deleting a key
  that has no session leaves the sessions collection as it is and shows the success
  toast.
\<close>

theorem deleteSession_idempotent:
  assumes "\<forall>n. kv_fault e n = None" and "\<forall>n. idb_fault e n = None"
  shows "kv (deleteSession e k (deleteSession e k w)) = kv (deleteSession e k w)
       \<and> blobs (deleteSession e k (deleteSession e k w)) = blobs (deleteSession e k w)
       \<and> toasts (deleteSession e k (deleteSession e k w))
           = toasts (deleteSession e k w) @ [Toast ''Session deleted'' ''success'']
       \<and> oplog (deleteSession e k (deleteSession e k w))
           = oplog (deleteSession e k w)
             @ [KVSet [(SESSIONS_KEY, VSessions (sessions_of (kv (deleteSession e k w))))]]
       \<and> (screenshotDB_defined e \<longrightarrow>
            fst (deleteSessionScreenshots e k (tick (deleteSession e k w))) = Inr 0)
       \<and> (map_of (sessions_of (kv w)) k = None \<longrightarrow>
            sessions_of (kv (deleteSession e k w)) = sessions_of (kv w)
          \<and> toasts (deleteSession e k w) = toasts w @ [Toast ''Session deleted'' ''success''])"
proof -
  let ?w1 = "deleteSession e k w"
  have ss1: "sessions_of (kv ?w1) = AList.delete k (sessions_of (kv w))"
    by (simp add: deleteSession_fields(1) [OF assms(1)] sessions_of_upd_sessions)
  have kv2: "kv (deleteSession e k ?w1) = kv ?w1"
    by (simp add: deleteSession_fields(1) [OF assms(1)] sessions_of_upd_sessions delete_twice)
  have t2: "toasts (deleteSession e k ?w1) = toasts ?w1 @ [Toast ''Session deleted'' ''success'']"
    by (rule deleteSession_fields(2) [OF assms(1)])
  have gone: "\<forall>b \<in> set (blobs (tick ?w1)). sessionKey b \<noteq> k" if "screenshotDB_defined e"
    using that deleteSessionScreenshots_none_left [OF assms(2), of _ k "tick w"]
    by (auto simp add: deleteSession_fields(3) [OF assms(1)] tick_def)
  have b2: "blobs (deleteSession e k ?w1) = blobs ?w1"
    using cascade_nothing_left(2) [OF assms(2) gone]
    by (simp add: deleteSession_fields(3) [OF assms(1), of k ?w1] tick_def)
  have o2: "oplog (deleteSession e k ?w1)
              = oplog ?w1 @ [KVSet [(SESSIONS_KEY, VSessions (sessions_of (kv ?w1)))]]"
    using cascade_nothing_left(3) [OF assms(2) gone]
    by (simp add: deleteSession_fields(4) [OF assms(1), of k ?w1] tick_def ss1 delete_twice)
  have zero: "fst (deleteSessionScreenshots e k (tick ?w1)) = Inr 0" if "screenshotDB_defined e"
    using cascade_nothing_left(1) [OF assms(2) gone] that by simp
  have absent: "sessions_of (kv ?w1) = sessions_of (kv w)" if "map_of (sessions_of (kv w)) k = None"
    using that by (simp add: ss1 delete_absent)
  show ?thesis
    using kv2 b2 t2 o2 zero absent deleteSession_fields(2) [OF assms(1), of k w] by blast
qed

theorem deleteSession_idempotent_witness:
  "(\<forall>n. kv_fault demoEnv n = None) \<and> (\<forall>n. idb_fault demoEnv n = None)
   \<and> screenshotDB_defined demoEnv
   \<and> map fst (sessions_of (kv (deleteSession demoEnv ''www.youtube.com|a|2023-08-01'' sixWorld)))
       = [''www.youtube.com|b|2023-11-10'', ''www.youtube.com|c|2023-11-11'',
          ''www.youtube.com|d|2023-11-12'', ''www.youtube.com|e|2023-11-13'',
          ''www.youtube.com|f|2023-11-14'']
   \<and> blobs (deleteSession demoEnv ''www.youtube.com|a|2023-08-01'' sixWorld) = [shot2]
   \<and> kv (deleteSession demoEnv ''www.youtube.com|a|2023-08-01''
            (deleteSession demoEnv ''www.youtube.com|a|2023-08-01'' sixWorld))
       = kv (deleteSession demoEnv ''www.youtube.com|a|2023-08-01'' sixWorld)
   \<and> blobs (deleteSession demoEnv ''www.youtube.com|a|2023-08-01''
               (deleteSession demoEnv ''www.youtube.com|a|2023-08-01'' sixWorld)) = [shot2]
   \<and> toasts (deleteSession demoEnv ''www.youtube.com|a|2023-08-01''
                (deleteSession demoEnv ''www.youtube.com|a|2023-08-01'' sixWorld))
       = [Toast ''Session deleted'' ''success'', Toast ''Session deleted'' ''success'']
   \<and> fst (deleteSessionScreenshots demoEnv ''www.youtube.com|a|2023-08-01''
            (tick (deleteSession demoEnv ''www.youtube.com|a|2023-08-01'' sixWorld))) = Inr 0
   \<and> map_of (sessions_of (kv sixWorld)) ''www.youtube.com|z|2023-11-14'' = None
   \<and> sessions_of (kv (deleteSession demoEnv ''www.youtube.com|z|2023-11-14'' sixWorld))
       = sessions_of (kv sixWorld)"
proof -
  let ?a = "''www.youtube.com|a|2023-08-01''"
  let ?z = "''www.youtube.com|z|2023-11-14''"
  let ?rest = "AList.delete ?a sixSessions"
  let ?W1 = "\<lparr>kv = [SESSIONS_KEY \<mapsto> VSessions ?rest], blobs = [shot2], db = True,
               toasts = [Toast ''Session deleted'' ''success''],
               oplog = [IDBDelete ''screenshot_m1'', KVSet [(SESSIONS_KEY, VSessions ?rest)]],
               ticks = 3\<rparr>"
  have h1: "\<forall>n. kv_fault demoEnv n = None" and h2: "\<forall>n. idb_fault demoEnv n = None"
    and h3: "screenshotDB_defined demoEnv"
    by (simp_all add: demoEnv_def)
  have w1: "deleteSession demoEnv ?a sixWorld = ?W1"
    by (simp add: deleteSession_def demoEnv_def sixWorld_def blobWorld_def emptyWorld_def
       storage_get_def storage_set_def sessions_of_def deleteSessionScreenshots_def
       initDB_def range_delete_def tick_def showToast_def shot1_def shot2_def Let_def)
  have w2: "deleteSession demoEnv ?a ?W1 =
              ?W1\<lparr>toasts := [Toast ''Session deleted'' ''success'', Toast ''Session deleted'' ''success''],
                   oplog := [IDBDelete ''screenshot_m1'', KVSet [(SESSIONS_KEY, VSessions ?rest)],
                             KVSet [(SESSIONS_KEY, VSessions ?rest)]],
                   ticks := 6\<rparr>"
    by (simp add: deleteSession_def demoEnv_def
       storage_get_def storage_set_def sessions_of_def deleteSessionScreenshots_def
       initDB_def range_delete_def tick_def showToast_def shot2_def Let_def AList.delete_eq)
  have c0: "fst (deleteSessionScreenshots demoEnv ?a (tick ?W1)) = Inr 0"
    by (simp add: demoEnv_def deleteSessionScreenshots_def initDB_def range_delete_def tick_def
        shot2_def)
  have z0: "map_of (sessions_of (kv sixWorld)) ?z = None"
    by (simp add: sixWorld_def blobWorld_def emptyWorld_def sessions_of_def sixSessions_def)
  have keys: "map fst (sessions_of (kv ?W1)) =
       [''www.youtube.com|b|2023-11-10'', ''www.youtube.com|c|2023-11-11'',
        ''www.youtube.com|d|2023-11-12'', ''www.youtube.com|e|2023-11-13'',
        ''www.youtube.com|f|2023-11-14'']"
    by (simp add: sessions_of_def sixSessions_deleted)
  show ?thesis
    using deleteSession_idempotent [OF h1 h2, of ?a sixWorld]
          deleteSession_idempotent [OF h1 h2, of ?z sixWorld]
          h1 h2 h3 z0 keys c0
    by (simp add: w1 w2)
qed

section \<open>The save queue\<close>

text \<open>
  C1 fails on the code. The first \<^verbatim>\<open>queuedSave\<close> starts the drain loop, which takes the
  entry \<^verbatim>\<open>[key, save1]\<close> from the iterator and is suspended at
  \<^verbatim>\<open>await checkStorageQuota()\<close>. A second \<^verbatim>\<open>queuedSave\<close> on the same key replaces the
  queued value by \<open>save2\<close> and returns, since \<^verbatim>\<open>saveInProgress\<close> is set. The loop resumes,
  writes the value it had already taken, finds the iterator exhausted and clears the
  queue. The only physical write is of \<open>save1\<close>; \<open>save2\<close> is dropped, and no toast is
  shown.
\<close>

theorem queuedSave_drops_later_value:
  "run demoEnv (idleQueue, emptyWorld)
       [Call SESSIONS_KEY save1 3, Call SESSIONS_KEY save2 3, Resume, Resume]
     = (idleQueue,
        emptyWorld\<lparr>kv := [SESSIONS_KEY \<mapsto> save1],
                    oplog := [KVSet [(SESSIONS_KEY, save1)]],
                    ticks := 2\<rparr>)"
  by (simp add: run_def queuedSave_def resume_def idleQueue_def emptyWorld_def demoEnv_def
       forNext_def
       checkStorageQuota_def storage_get_def storage_set_def tick_def quotaLimit_def
       warningLimit_def Let_def)

end
